theory Spec2Isabelle
  imports Main "HOL-Library.Word" "HOL-Library.Signed_Division"
begin

unbundle bit_operations_syntax

section \<open>Data model of the protocol engine (ConfigurableFirmata.h)\<close>

type_synonym byte = "8 word"

text \<open>
  Undefined behaviour of the C++ source is a value of the model: an access to
  \<^verbatim>\<open>storedInputData\<close> outside the array, an access to \<^verbatim>\<open>pinConfig\<close> or
  \<^verbatim>\<open>pinState\<close> outside \<^verbatim>\<open>TOTAL_PINS\<close>, and a call through
  \<^verbatim>\<open>FirmataStream\<close> while it is still the null pointer.
\<close>

datatype fault = BufferOutOfBounds | PinOutOfBounds | NullStream

text \<open>
  The handlers behind the function-pointer slots are external collaborators. A slot is
  modelled by whether it holds a handler (\<open>True\<close>) or \<^verbatim>\<open>NULL\<close> (\<open>False\<close>); an
  invocation is recorded, with the arguments the handler receives, in the field
  \<open>calls\<close>. The handler's own body is outside the engine and is taken not to touch the
  engine's fields.
\<close>

datatype invocation =
    DigitalCallback byte int
  | ReportAnalogCallback byte int
  | ReportDigitalCallback byte int
  | PinModeCallback byte int
  | PinValueCallback byte int
  | SystemResetCallback
  | StringCallback "byte list"
  | SysexCallback byte byte "byte list"

text \<open>
  The private fields of \<^verbatim>\<open>FirmataClass\<close>. The transport behind \<^verbatim>\<open>FirmataStream\<close> is
  the pair of byte queues \<open>streamIn\<close> (bytes the host has sent and the engine has not
  read yet) and \<open>streamOut\<close> (bytes the engine has written); \<open>FirmataStream\<close> itself
  says whether the pointer has been bound. \<open>serialOut\<close> is what is printed on
  \<^verbatim>\<open>Serial\<close> when it is a console separate from the transport. The arrays are lists
  that carry their own length: \<^verbatim>\<open>MAX_DATA_BYTES\<close> for \<open>storedInputData\<close> and the board
  constant \<^verbatim>\<open>TOTAL_PINS\<close> (declared in utility/Boards.h) for the two pin arrays.
  \<^verbatim>\<open>sysexBytesRead\<close> is a C \<^verbatim>\<open>int\<close>; the model keeps it as a mathematical integer.
  \<open>firmwareVersionName\<close> points to plain \<^verbatim>\<open>char\<close>s, whose signedness is the
  target's: the model keeps the characters before the terminating zero, each as the
  integer that the \<^verbatim>\<open>char\<close> converts to (\<open>-128..127\<close> where \<^verbatim>\<open>char\<close> is signed,
  \<open>0..255\<close> where it is unsigned).
\<close>

record FirmataClass =
  FirmataStream :: bool
  streamIn :: "byte list"
  streamOut :: "byte list"
  serialOut :: "byte list"
  firmwareVersionName :: "int list"
  firmwareVersionMajor :: byte
  firmwareVersionMinor :: byte
  waitForData :: byte
  executeMultiByteCommand :: byte
  multiByteChannel :: byte
  storedInputData :: "byte list"
  parsingSysex :: bool
  sysexBytesRead :: int
  pinConfig :: "byte list"
  pinState :: "byte list"
  resetting :: bool
  outputIsConsole :: bool
  currentDigitalCallback :: bool
  currentReportAnalogCallback :: bool
  currentReportDigitalCallback :: bool
  currentPinModeCallback :: bool
  currentPinValueCallback :: bool
  currentSystemResetCallback :: bool
  currentStringCallback :: bool
  currentSysexCallback :: bool
  calls :: "invocation list"

subsection \<open>Constants of the header\<close>

text \<open>
  \<^verbatim>\<open>MAX_DATA_BYTES\<close> depends on the build: 252 when \<^verbatim>\<open>LARGE_MEM_DEVICE\<close> is defined,
  64 otherwise. The build flag is the first argument of every function that depends
  on it.
\<close>

definition MAX_DATA_BYTES :: "bool \<Rightarrow> nat" where
  "MAX_DATA_BYTES large_mem = (if large_mem then 252 else 64)"

definition LARGE_MEM_RCV_BUF_SIZE :: nat where
  "LARGE_MEM_RCV_BUF_SIZE = 4096"

definition FIRMATA_PROTOCOL_MAJOR_VERSION :: byte where "FIRMATA_PROTOCOL_MAJOR_VERSION = 2"
definition FIRMATA_PROTOCOL_MINOR_VERSION :: byte where "FIRMATA_PROTOCOL_MINOR_VERSION = 7"

definition DIGITAL_MESSAGE :: byte where "DIGITAL_MESSAGE = 0x90"
definition ANALOG_MESSAGE :: byte where "ANALOG_MESSAGE = 0xE0"
definition REPORT_ANALOG :: byte where "REPORT_ANALOG = 0xC0"
definition REPORT_DIGITAL :: byte where "REPORT_DIGITAL = 0xD0"
definition SET_PIN_MODE :: byte where "SET_PIN_MODE = 0xF4"
definition SET_DIGITAL_PIN_VALUE :: byte where "SET_DIGITAL_PIN_VALUE = 0xF5"
definition REPORT_VERSION :: byte where "REPORT_VERSION = 0xF9"
definition SYSTEM_RESET :: byte where "SYSTEM_RESET = 0xFF"
definition START_SYSEX :: byte where "START_SYSEX = 0xF0"
definition END_SYSEX :: byte where "END_SYSEX = 0xF7"
definition EXTENDED_ANALOG :: byte where "EXTENDED_ANALOG = 0x6F"
definition STRING_DATA :: byte where "STRING_DATA = 0x71"
definition REPORT_FIRMWARE :: byte where "REPORT_FIRMWARE = 0x79"
definition PIN_MODE_INPUT :: byte where "PIN_MODE_INPUT = 0x00"
definition PIN_MODE_IGNORE :: byte where "PIN_MODE_IGNORE = 0x7F"

subsection \<open>Sequencing of fallible steps\<close>

definition andThen :: "fault + 'a \<Rightarrow> ('a \<Rightarrow> fault + 'b) \<Rightarrow> fault + 'b" where
  "andThen r f = (case r of Inl e \<Rightarrow> Inl e | Inr x \<Rightarrow> f x)"

section \<open>Output stream handling\<close>

text \<open>\<^verbatim>\<open>FirmataStream->write(c)\<close>, also reached through \<^verbatim>\<open>FirmataClass::write(byte)\<close>.\<close>

definition write_byte :: "byte \<Rightarrow> FirmataClass \<Rightarrow> fault + FirmataClass" where
  "write_byte c s =
     (if FirmataStream s then Inr (s\<lparr>streamOut := streamOut s @ [c]\<rparr>) else Inl NullStream)"

subsection \<open>Packed integers\<close>

definition sendPackedUInt32 :: "32 word \<Rightarrow> FirmataClass \<Rightarrow> fault + FirmataClass" where
  "sendPackedUInt32 v s =
     andThen (write_byte (ucast (v AND 0x7F)) s) (\<lambda>s.
     andThen (write_byte (ucast (drop_bit 7 v AND 0x7F)) s) (\<lambda>s.
     andThen (write_byte (ucast (drop_bit 14 v AND 0x7F)) s) (\<lambda>s.
     andThen (write_byte (ucast (drop_bit 21 v AND 0x7F)) s) (\<lambda>s.
     write_byte (ucast (drop_bit 28 v AND 0x0F)) s))))"

definition sendPackedUInt64 :: "64 word \<Rightarrow> FirmataClass \<Rightarrow> fault + FirmataClass" where
  "sendPackedUInt64 v s =
     andThen (sendPackedUInt32 (ucast (v AND 0xFFFFFFFF)) s) (\<lambda>s.
     sendPackedUInt32 (ucast (drop_bit 32 v)) s)"

definition sendPackedUInt14 :: "16 word \<Rightarrow> FirmataClass \<Rightarrow> fault + FirmataClass" where
  "sendPackedUInt14 v s =
     andThen (write_byte (ucast (v AND 0x7F)) s) (\<lambda>s.
     write_byte (ucast (drop_bit 7 v AND 0x7F)) s)"

text \<open>
  The decoders read through a pointer \<^verbatim>\<open>argv\<close>; the model takes the bytes from
  \<^verbatim>\<open>argv\<close> on as a list and returns \<open>None\<close> where the source would read past them.
\<close>

definition decodePackedUInt32 :: "byte list \<Rightarrow> 32 word option" where
  "decodePackedUInt32 argv =
     (if length argv < 5 then None
      else Some (ucast (argv ! 0)
                 OR push_bit 7 (ucast (argv ! 1))
                 OR push_bit 14 (ucast (argv ! 2))
                 OR push_bit 21 (ucast (argv ! 3))
                 OR push_bit 28 (ucast (argv ! 4))))"

definition decodePackedUInt64 :: "byte list \<Rightarrow> 64 word option" where
  "decodePackedUInt64 argv =
     (case decodePackedUInt32 argv of
        None \<Rightarrow> None
      | Some lo \<Rightarrow>
          (case decodePackedUInt32 (drop 5 argv) of
             None \<Rightarrow> None
           | Some hi \<Rightarrow> Some (0 + ucast lo + push_bit 32 (ucast hi))))"

definition decodePackedUInt14 :: "byte list \<Rightarrow> 16 word option" where
  "decodePackedUInt14 argv =
     (if length argv < 2 then None
      else Some (ucast ((ucast (argv ! 0) :: 32 word) OR push_bit 7 (ucast (argv ! 1)))))"


section \<open>The stored input buffer\<close>

text \<open>
  A read \<^verbatim>\<open>storedInputData[i]\<close> and a write \<^verbatim>\<open>storedInputData[i] = v\<close>; an index
  outside the array is the fault \<open>BufferOutOfBounds\<close>.
\<close>

definition loadAt :: "int \<Rightarrow> FirmataClass \<Rightarrow> fault + byte" where
  "loadAt i s =
     (if 0 \<le> i \<and> i < int (length (storedInputData s))
      then Inr (storedInputData s ! nat i) else Inl BufferOutOfBounds)"

definition storeAt :: "int \<Rightarrow> byte \<Rightarrow> FirmataClass \<Rightarrow> fault + FirmataClass" where
  "storeAt i v s =
     (if 0 \<le> i \<and> i < int (length (storedInputData s))
      then Inr (s\<lparr>storedInputData := (storedInputData s)[nat i := v]\<rparr>)
      else Inl BufferOutOfBounds)"

text \<open>A \<^verbatim>\<open>for\<close> loop over the elements of a list, stopping at the first fault.\<close>

primrec forEach :: "'a list \<Rightarrow> ('a \<Rightarrow> 's \<Rightarrow> fault + 's) \<Rightarrow> 's \<Rightarrow> fault + 's" where
  "forEach [] f s = Inr s"
| "forEach (x # xs) f s = andThen (f x s) (forEach xs f)"

section \<open>Support functions and reports\<close>

definition sendValueAsTwo7bitBytes :: "int \<Rightarrow> FirmataClass \<Rightarrow> fault + FirmataClass" where
  "sendValueAsTwo7bitBytes v s =
     andThen (write_byte (word_of_int (v AND 0x7F)) s) (\<lambda>s.
     write_byte (word_of_int (drop_bit 7 v AND 0x7F)) s)"

definition startSysex :: "FirmataClass \<Rightarrow> fault + FirmataClass" where
  "startSysex s = write_byte START_SYSEX s"

text \<open>\<^verbatim>\<open>flush()\<close> after the end marker leaves the byte queues as they are.\<close>

definition endSysex :: "FirmataClass \<Rightarrow> fault + FirmataClass" where
  "endSysex s = write_byte END_SYSEX s"

definition printVersion :: "FirmataClass \<Rightarrow> fault + FirmataClass" where
  "printVersion s =
     andThen (write_byte REPORT_VERSION s) (\<lambda>s.
     andThen (write_byte FIRMATA_PROTOCOL_MAJOR_VERSION s) (\<lambda>s.
     write_byte FIRMATA_PROTOCOL_MINOR_VERSION s))"

text \<open>
  Each character of the firmware name is a plain \<^verbatim>\<open>char\<close> converted to the
  \<^verbatim>\<open>int\<close> parameter of \<open>sendValueAsTwo7bitBytes\<close>; a negative value is shifted
  arithmetically, so that a signed character above \<^verbatim>\<open>0x7F\<close> goes out with
  \<^verbatim>\<open>0x7F\<close> as its second byte.
\<close>

definition printFirmwareVersion :: "FirmataClass \<Rightarrow> fault + FirmataClass" where
  "printFirmwareVersion s =
     (if firmwareVersionMajor s \<noteq> 0 \<and> FirmataStream s then
        andThen (startSysex s) (\<lambda>s.
        andThen (write_byte REPORT_FIRMWARE s) (\<lambda>s.
        andThen (write_byte (firmwareVersionMajor s) s) (\<lambda>s.
        andThen (write_byte (firmwareVersionMinor s) s) (\<lambda>s.
        andThen (forEach (firmwareVersionName s) sendValueAsTwo7bitBytes s)
          endSysex))))
      else Inr s)"

text \<open>
  \<^verbatim>\<open>sendString(const FlashString*)\<close>: the string is echoed with a line end on
  \<^verbatim>\<open>Serial\<close> when the transport is not the console, then sent as a
  \<^verbatim>\<open>STRING_DATA\<close> sysex message. Its characters are read with
  \<^verbatim>\<open>pgm_read_byte\<close>, which gives unsigned bytes.
\<close>

definition sendString :: "byte list \<Rightarrow> FirmataClass \<Rightarrow> fault + FirmataClass" where
  "sendString flashString s =
     (let s = (if \<not> outputIsConsole s
               then s\<lparr>serialOut := serialOut s @ flashString @ [0x0D, 0x0A]\<rparr> else s)
      in andThen (startSysex s) (\<lambda>s.
         andThen (write_byte STRING_DATA s) (\<lambda>s.
         andThen (forEach flashString (\<lambda>c. sendValueAsTwo7bitBytes (uint c)) s)
           endSysex)))"

text \<open>The text of the diagnostic sent when an incoming sysex message fills the buffer.\<close>

definition discardingMessage :: "byte list" where
  "discardingMessage = map of_char ''Discarding input message, out of buffer''"

section \<open>Pin table\<close>

definition getPinMode :: "byte \<Rightarrow> FirmataClass \<Rightarrow> fault + byte" where
  "getPinMode pin s =
     (if unat pin < length (pinConfig s) then Inr (pinConfig s ! unat pin)
      else Inl PinOutOfBounds)"

definition setPinMode :: "byte \<Rightarrow> byte \<Rightarrow> FirmataClass \<Rightarrow> fault + FirmataClass" where
  "setPinMode pin config s =
     (if \<not> unat pin < length (pinConfig s) then Inl PinOutOfBounds
      else if pinConfig s ! unat pin = PIN_MODE_IGNORE then Inr s
      else if \<not> unat pin < length (pinState s) then Inl PinOutOfBounds
      else
        (let s = s\<lparr>pinState := (pinState s)[unat pin := 0]\<rparr>;
             s = s\<lparr>pinConfig := (pinConfig s)[unat pin := config]\<rparr>
         in if currentPinModeCallback s
            then Inr (s\<lparr>calls := calls s @ [PinModeCallback pin (uint config)]\<rparr>)
            else Inr s))"

definition getPinState :: "byte \<Rightarrow> FirmataClass \<Rightarrow> fault + int" where
  "getPinState pin s =
     (if unat pin < length (pinState s) then Inr (uint (pinState s ! unat pin))
      else Inl PinOutOfBounds)"

definition setPinState :: "byte \<Rightarrow> byte \<Rightarrow> FirmataClass \<Rightarrow> fault + FirmataClass" where
  "setPinState pin state s =
     (if unat pin < length (pinState s)
      then Inr (s\<lparr>pinState := (pinState s)[unat pin := state]\<rparr>)
      else Inl PinOutOfBounds)"


section \<open>Input stream handling\<close>

subsection \<open>Dispatch of a completed sysex message\<close>

text \<open>
  The loop of the \<^verbatim>\<open>STRING_DATA\<close> case, which decodes the two-byte characters in
  place. \<^verbatim>\<open>i\<close> and \<^verbatim>\<open>j\<close> are bytes and wrap as bytes do. The result is the final
  \<^verbatim>\<open>j\<close> and the engine with the rewritten buffer.
\<close>

function decodeString :: "byte \<Rightarrow> byte \<Rightarrow> byte \<Rightarrow> FirmataClass \<Rightarrow> fault + (byte \<times> FirmataClass)" where
  "decodeString bufferLength i j s =
     (if j < bufferLength then
        andThen (loadAt (uint i) s) (\<lambda>a.
        andThen (storeAt (uint j) a s) (\<lambda>s.
        andThen (loadAt (uint j) s) (\<lambda>cur.
        andThen (loadAt (uint (i + 1)) s) (\<lambda>b.
        andThen (storeAt (uint j) (cur + push_bit 7 b) s) (\<lambda>s.
        decodeString bufferLength (i + 1 + 1) (j + 1) s)))))
      else Inr (j, s))"
  by pat_completeness auto
termination
proof (relation "measure (\<lambda>(bufferLength, i, j, s). unat bufferLength - unat j)")
  show "wf (measure (\<lambda>(bufferLength, i, j, s). unat bufferLength - unat j))"
    by simp
next
  fix bufferLength i j :: byte and s s' :: FirmataClass
  assume "j < bufferLength"
  then have lt: "unat j < unat bufferLength"
    by (simp add: word_less_nat_alt)
  have "unat bufferLength < 2 ^ LENGTH(8)"
    by (rule unsigned_less)
  with lt have "unat j + unat (1 :: byte) < 2 ^ LENGTH(8)"
    by simp
  then have "unat (j + 1) = unat j + unat (1 :: byte)"
    by (rule unat_add_lem [THEN iffD1])
  with lt show "((bufferLength, i + 1 + 1, j + 1, s'), (bufferLength, i, j, s))
      \<in> measure (\<lambda>(bufferLength, i, j, s). unat bufferLength - unat j)"
    by simp
qed

text \<open>
  The handler of a string message gets a pointer to the start of the buffer and reads a
  C string there: the bytes before the first zero. The handler of any other sysex
  message gets the command, the count \<^verbatim>\<open>sysexBytesRead - 1\<close> cut to a byte, and a
  pointer to the second byte of the buffer; the record of the call keeps the bytes of
  the buffer that the count covers.
\<close>

definition processSysexMessage :: "FirmataClass \<Rightarrow> fault + FirmataClass" where
  "processSysexMessage s =
     andThen (loadAt 0 s) (\<lambda>command.
       if command = REPORT_FIRMWARE then printFirmwareVersion s
       else if command = STRING_DATA then
         (if currentStringCallback s then
            (let bufferLength = (word_of_int ((sysexBytesRead s - 1) sdiv 2) :: byte)
             in if bufferLength \<le> 0 then Inr s
                else
                  andThen (decodeString bufferLength 1 0 s) (\<lambda>(j, s).
                  andThen (loadAt (uint (j - 1)) s) (\<lambda>c.
                  andThen (if c \<noteq> 0 then storeAt (uint j) 0 s else Inr s) (\<lambda>s.
                  Inr (s\<lparr>calls := calls s @
                        [StringCallback (takeWhile (\<lambda>c. c \<noteq> 0) (storedInputData s))]\<rparr>)))))
          else Inr s)
       else if currentSysexCallback s then
         (let argc = (word_of_int (sysexBytesRead s - 1) :: byte)
          in Inr (s\<lparr>calls := calls s @
                   [SysexCallback command argc (take (unat argc) (drop 1 (storedInputData s)))]\<rparr>))
       else Inr s)"

subsection \<open>System reset\<close>

definition systemReset :: "bool \<Rightarrow> FirmataClass \<Rightarrow> fault + FirmataClass" where
  "systemReset large_mem s =
     (let s = s\<lparr>resetting := True\<rparr>;
          s = s\<lparr>waitForData := 0\<rparr>;
          s = s\<lparr>executeMultiByteCommand := 0\<rparr>;
          s = s\<lparr>multiByteChannel := 0\<rparr>
      in andThen (forEach [0..<MAX_DATA_BYTES large_mem] (\<lambda>i. storeAt (int i) 0) s) (\<lambda>s.
           let s = s\<lparr>parsingSysex := False\<rparr>;
               s = s\<lparr>sysexBytesRead := 0\<rparr>;
               s = (if currentSystemResetCallback s
                    then s\<lparr>calls := calls s @ [SystemResetCallback]\<rparr> else s)
           in Inr (s\<lparr>resetting := False\<rparr>)))"

definition resetParser :: "FirmataClass \<Rightarrow> FirmataClass" where
  "resetParser s =
     s\<lparr>parsingSysex := False, sysexBytesRead := 0, waitForData := 0,
       executeMultiByteCommand := 0\<rparr>"

definition isParsingMessage :: "FirmataClass \<Rightarrow> bool" where
  "isParsingMessage s = (waitForData s > 0 \<or> parsingSysex s)"


subsection \<open>The parser\<close>

text \<open>
  The \<^verbatim>\<open>switch (executeMultiByteCommand)\<close> that runs when the last argument byte of
  a fixed-length message has arrived.
\<close>

definition executeCommand :: "FirmataClass \<Rightarrow> fault + FirmataClass" where
  "executeCommand s =
     (if executeMultiByteCommand s = ANALOG_MESSAGE then
        andThen (loadAt 0 s) (\<lambda>b0.
        andThen (loadAt 1 s) (\<lambda>b1.
        andThen (storeAt 0 EXTENDED_ANALOG s) (\<lambda>s.
        andThen (storeAt 1 (multiByteChannel s) s) (\<lambda>s.
        andThen (storeAt 2 b1 s) (\<lambda>s.
        andThen (storeAt 3 b0 s) (\<lambda>s.
        andThen (storeAt 4 END_SYSEX s) (\<lambda>s.
        processSysexMessage (s\<lparr>sysexBytesRead := 4\<rparr>))))))))
      else if executeMultiByteCommand s = DIGITAL_MESSAGE then
        (if currentDigitalCallback s then
           andThen (loadAt 0 s) (\<lambda>b0.
           andThen (loadAt 1 s) (\<lambda>b1.
           Inr (s\<lparr>calls := calls s @
                 [DigitalCallback (multiByteChannel s) (push_bit 7 (uint b0) + uint b1)]\<rparr>)))
         else Inr s)
      else if executeMultiByteCommand s = SET_PIN_MODE then
        andThen (loadAt 1 s) (\<lambda>b1.
        andThen (loadAt 0 s) (\<lambda>b0.
        setPinMode b1 b0 s))
      else if executeMultiByteCommand s = SET_DIGITAL_PIN_VALUE then
        (if currentPinValueCallback s then
           andThen (loadAt 1 s) (\<lambda>b1.
           andThen (loadAt 0 s) (\<lambda>b0.
           Inr (s\<lparr>calls := calls s @ [PinValueCallback b1 (uint b0)]\<rparr>)))
         else Inr s)
      else if executeMultiByteCommand s = REPORT_ANALOG then
        (if currentReportAnalogCallback s then
           andThen (loadAt 0 s) (\<lambda>b0.
           Inr (s\<lparr>calls := calls s @ [ReportAnalogCallback (multiByteChannel s) (uint b0)]\<rparr>))
         else Inr s)
      else if executeMultiByteCommand s = REPORT_DIGITAL then
        (if currentReportDigitalCallback s then
           andThen (loadAt 0 s) (\<lambda>b0.
           Inr (s\<lparr>calls := calls s @ [ReportDigitalCallback (multiByteChannel s) (uint b0)]\<rparr>))
         else Inr s)
      else Inr s)"

text \<open>The \<^verbatim>\<open>switch (command)\<close> on a byte that starts a new message.\<close>

definition startCommand :: "bool \<Rightarrow> byte \<Rightarrow> FirmataClass \<Rightarrow> fault + FirmataClass" where
  "startCommand large_mem command s =
     (if command = ANALOG_MESSAGE \<or> command = DIGITAL_MESSAGE
         \<or> command = SET_PIN_MODE \<or> command = SET_DIGITAL_PIN_VALUE
      then Inr (s\<lparr>waitForData := 2, executeMultiByteCommand := command\<rparr>)
      else if command = REPORT_ANALOG \<or> command = REPORT_DIGITAL
      then Inr (s\<lparr>waitForData := 1, executeMultiByteCommand := command\<rparr>)
      else if command = START_SYSEX
      then Inr (s\<lparr>parsingSysex := True, sysexBytesRead := 0\<rparr>)
      else if command = SYSTEM_RESET then systemReset large_mem s
      else if command = REPORT_VERSION then printVersion s
      else Inr s)"

definition parse :: "bool \<Rightarrow> byte \<Rightarrow> FirmataClass \<Rightarrow> fault + FirmataClass" where
  "parse large_mem inputData s =
     (if inputData = SYSTEM_RESET then
        systemReset large_mem (s\<lparr>parsingSysex := False, sysexBytesRead := 0, waitForData := 0\<rparr>)
      else if parsingSysex s then
        (if inputData = END_SYSEX then processSysexMessage (s\<lparr>parsingSysex := False\<rparr>)
         else
           andThen (storeAt (sysexBytesRead s) inputData s) (\<lambda>s.
             let s = s\<lparr>sysexBytesRead := sysexBytesRead s + 1\<rparr>
             in if sysexBytesRead s = int (MAX_DATA_BYTES large_mem) then
                  andThen (sendString discardingMessage s) (\<lambda>s.
                  Inr (s\<lparr>parsingSysex := False, sysexBytesRead := 0, waitForData := 0\<rparr>))
                else Inr s))
      else if waitForData s > 0 \<and> inputData < 128 then
        (let s = s\<lparr>waitForData := waitForData s - 1\<rparr>
         in andThen (storeAt (uint (waitForData s)) inputData s) (\<lambda>s.
              if waitForData s = 0 \<and> executeMultiByteCommand s \<noteq> 0 then
                andThen (executeCommand s) (\<lambda>s.
                Inr (s\<lparr>executeMultiByteCommand := 0\<rparr>))
              else Inr s))
      else if inputData < 0xF0 then
        startCommand large_mem (inputData AND 0xF0) (s\<lparr>multiByteChannel := inputData AND 0x0F\<rparr>)
      else startCommand large_mem inputData s)"

subsection \<open>Reading from the transport\<close>

text \<open>
  The first loop of the large-memory \<^verbatim>\<open>processInput\<close>: while a sysex message is
  being collected and more than four bytes are left in the read cache, a word of four
  bytes without a top bit set is copied into the buffer at \<^verbatim>\<open>sysexBytesRead\<close>. The
  result is the final read position and the engine.
\<close>

function bulkCopy :: "byte list \<Rightarrow> nat \<Rightarrow> FirmataClass \<Rightarrow> fault + (nat \<times> FirmataClass)" where
  "bulkCopy readCache readCachePos s =
     (if parsingSysex s \<and> length readCache > readCachePos + 4 then
        (let nextWord = (ucast (readCache ! readCachePos)
                         OR push_bit 8 (ucast (readCache ! (readCachePos + 1)))
                         OR push_bit 16 (ucast (readCache ! (readCachePos + 2)))
                         OR push_bit 24 (ucast (readCache ! (readCachePos + 3))) :: 32 word)
         in if nextWord AND 0x80808080 \<noteq> 0 then Inr (readCachePos, s)
            else
              andThen (storeAt (sysexBytesRead s) (ucast nextWord) s) (\<lambda>s.
              andThen (storeAt (sysexBytesRead s + 1) (ucast (drop_bit 8 nextWord)) s) (\<lambda>s.
              andThen (storeAt (sysexBytesRead s + 2) (ucast (drop_bit 16 nextWord)) s) (\<lambda>s.
              andThen (storeAt (sysexBytesRead s + 3) (ucast (drop_bit 24 nextWord)) s) (\<lambda>s.
              bulkCopy readCache (readCachePos + 4) (s\<lparr>sysexBytesRead := sysexBytesRead s + 4\<rparr>))))))
      else Inr (readCachePos, s))"
  by pat_completeness auto
termination
  by (relation "measure (\<lambda>(readCache, readCachePos, s). length readCache - readCachePos)") auto

text \<open>
  \<^verbatim>\<open>processInput\<close>. With \<^verbatim>\<open>LARGE_MEM_DEVICE\<close> it takes up to
  \<^verbatim>\<open>LARGE_MEM_RCV_BUF_SIZE\<close> pending bytes into the read cache, runs the copying loop
  and hands the rest to \<open>parse\<close> byte by byte; without it, it reads one byte, if one
  is pending, and hands it to \<open>parse\<close>.
\<close>

definition processInput :: "bool \<Rightarrow> FirmataClass \<Rightarrow> fault + FirmataClass" where
  "processInput large_mem s =
     (if \<not> FirmataStream s then Inl NullStream
      else if large_mem then
        (let readCache = take LARGE_MEM_RCV_BUF_SIZE (streamIn s);
             s = s\<lparr>streamIn := drop LARGE_MEM_RCV_BUF_SIZE (streamIn s)\<rparr>
         in andThen (bulkCopy readCache 0 s) (\<lambda>(readCachePos, s).
            forEach (drop readCachePos readCache) (parse large_mem) s))
      else
        (case streamIn s of
           [] \<Rightarrow> Inr s
         | inputData # rest \<Rightarrow> parse large_mem inputData (s\<lparr>streamIn := rest\<rparr>)))"

section \<open>Construction\<close>

text \<open>
  The one instance \<^verbatim>\<open>Firmata\<close> has static storage: every field is zero before the
  constructor runs, so no transport is bound, no handler is attached, and every pin
  has mode 0 and state 0. The constructor clears the firmware identity and calls
  \<open>systemReset\<close>. The number of pins is the board's \<^verbatim>\<open>TOTAL_PINS\<close>.
\<close>

definition zeroInitialized :: "bool \<Rightarrow> nat \<Rightarrow> FirmataClass" where
  "zeroInitialized large_mem total_pins =
     \<lparr>FirmataStream = False, streamIn = [], streamOut = [], serialOut = [],
      firmwareVersionName = [], firmwareVersionMajor = 0, firmwareVersionMinor = 0,
      waitForData = 0, executeMultiByteCommand = 0, multiByteChannel = 0,
      storedInputData = replicate (MAX_DATA_BYTES large_mem) 0,
      parsingSysex = False, sysexBytesRead = 0,
      pinConfig = replicate total_pins 0, pinState = replicate total_pins 0,
      resetting = False, outputIsConsole = False,
      currentDigitalCallback = False, currentReportAnalogCallback = False,
      currentReportDigitalCallback = False, currentPinModeCallback = False,
      currentPinValueCallback = False, currentSystemResetCallback = False,
      currentStringCallback = False, currentSysexCallback = False,
      calls = []\<rparr>"

definition FirmataClass_new :: "bool \<Rightarrow> nat \<Rightarrow> fault + FirmataClass" where
  "FirmataClass_new large_mem total_pins =
     systemReset large_mem
       ((zeroInitialized large_mem total_pins)
          \<lparr>firmwareVersionMinor := 0, firmwareVersionMajor := 0, firmwareVersionName := []\<rparr>)"

text \<open>\<^verbatim>\<open>begin(Stream &s, bool isConsole)\<close> binds the transport and reports the versions.\<close>

definition begin_stream :: "bool \<Rightarrow> FirmataClass \<Rightarrow> fault + FirmataClass" where
  "begin_stream isConsole s =
     andThen (printVersion (s\<lparr>FirmataStream := True, outputIsConsole := isConsole\<rparr>))
       printFirmwareVersion"


section \<open>Auxiliary notions for the statements\<close>

text \<open>The bytes written to the transport between an earlier and a later engine state.\<close>

definition written :: "FirmataClass \<Rightarrow> FirmataClass \<Rightarrow> byte list" where
  "written s s' = drop (length (streamOut s)) (streamOut s')"

text \<open>
  An engine on the small-memory or large-memory build with twenty pins, a bound
  transport that is also the console, and a handler in every slot; used to run the
  theorems on concrete inputs.
\<close>

definition exampleEngine :: "bool \<Rightarrow> FirmataClass" where
  "exampleEngine large_mem =
     (zeroInitialized large_mem 20)
       \<lparr>FirmataStream := True, outputIsConsole := True,
        currentDigitalCallback := True, currentReportAnalogCallback := True,
        currentReportDigitalCallback := True, currentPinModeCallback := True,
        currentPinValueCallback := True, currentSystemResetCallback := True,
        currentStringCallback := True, currentSysexCallback := True\<rparr>"

text \<open>
  A one-pin engine whose pin has been given mode 1 (output) and state 5, with no
  transport and no handler attached.
\<close>

definition configuredPin :: FirmataClass where
  "configuredPin = (zeroInitialized False 1)\<lparr>pinConfig := [1], pinState := [5]\<rparr>"

text \<open>
  An engine that has taken \<^verbatim>\<open>START_SYSEX, 0x01, 0x02\<close> and is still collecting.
\<close>

definition midSysex :: FirmataClass where
  "midSysex =
     (exampleEngine False)
       \<lparr>parsingSysex := True, sysexBytesRead := 2,
        storedInputData := [1, 2] @ replicate 62 0\<rparr>"

text \<open>
  The command that \<open>parse\<close> decodes from a byte that starts a message (bytes below
  \<^verbatim>\<open>0xF0\<close> carry a channel in the low nibble), and the commands that have a case
  in its \<^verbatim>\<open>switch\<close>.
\<close>

definition commandOf :: "byte \<Rightarrow> byte" where
  "commandOf inputData = (if inputData < 0xF0 then inputData AND 0xF0 else inputData)"

definition recognized :: "byte \<Rightarrow> bool" where
  "recognized command =
     (command = ANALOG_MESSAGE \<or> command = DIGITAL_MESSAGE \<or> command = SET_PIN_MODE
      \<or> command = SET_DIGITAL_PIN_VALUE \<or> command = REPORT_ANALOG
      \<or> command = REPORT_DIGITAL \<or> command = START_SYSEX \<or> command = SYSTEM_RESET
      \<or> command = REPORT_VERSION)"

text \<open>
  Proof devices. \<open>ensures r E Q\<close> says that a result is either a fault allowed by
  \<open>E\<close> or a value satisfying \<open>Q\<close>. \<open>control\<close> collects the fields that the output
  and dispatch routines leave alone.
\<close>

definition ensures :: "fault + 'a \<Rightarrow> (fault \<Rightarrow> bool) \<Rightarrow> ('a \<Rightarrow> bool) \<Rightarrow> bool" where
  "ensures r E Q = (case r of Inl e \<Rightarrow> E e | Inr x \<Rightarrow> Q x)"

definition control :: "FirmataClass \<Rightarrow> byte list \<times> byte list \<times> nat \<times> int \<times> byte \<times> bool" where
  "control s =
     (pinConfig s, pinState s, length (storedInputData s), sysexBytesRead s, waitForData s,
      parsingSysex s)"

definition notBuffer :: "fault \<Rightarrow> bool" where
  "notBuffer e = (e \<noteq> BufferOutOfBounds)"

definition anyFault :: "fault \<Rightarrow> bool" where
  "anyFault e = True"

text \<open>A pin is ignored when it exists and its mode is the sentinel \<^verbatim>\<open>PIN_MODE_IGNORE\<close>.\<close>

definition pinIgnored :: "nat \<Rightarrow> FirmataClass \<Rightarrow> bool" where
  "pinIgnored p s = (p < length (pinConfig s) \<and> pinConfig s ! p = PIN_MODE_IGNORE)"

text \<open>The example engine with pin 3 marked as ignored while its state is 1.\<close>

definition ignoredPin :: FirmataClass where
  "ignoredPin =
     (exampleEngine False)
       \<lparr>pinConfig := (replicate 20 0)[3 := PIN_MODE_IGNORE],
        pinState := (replicate 20 0)[3 := 1]\<rparr>"

text \<open>
  The bytes of a string message on the wire, as \<open>sendString\<close> writes them: start
  marker, \<^verbatim>\<open>STRING_DATA\<close>, two seven-bit bytes for each character, end marker.
\<close>

definition stringMessage :: "byte list \<Rightarrow> byte list" where
  "stringMessage str =
     [START_SYSEX, STRING_DATA] @ concat (map (\<lambda>c. [c AND 0x7F, drop_bit 7 c AND 0x7F]) str)
       @ [END_SYSEX]"

text \<open>
  The bytes that the parser stores while it collects a sysex message: every byte
  except the reset command and the end marker.
\<close>

definition sysexData :: "byte list \<Rightarrow> bool" where
  "sysexData payload = list_all (\<lambda>b. b \<noteq> SYSTEM_RESET \<and> b \<noteq> END_SYSEX) payload"

text \<open>
  The large-memory example engine after \<^verbatim>\<open>START_SYSEX\<close> and 248 data bytes
  \<^verbatim>\<open>0x01\<close>: four bytes short of a full buffer.
\<close>

definition nearlyFull :: FirmataClass where
  "nearlyFull =
     (exampleEngine True)
       \<lparr>parsingSysex := True, sysexBytesRead := 248,
        storedInputData := replicate 248 1 @ replicate 4 0\<rparr>"

text \<open>
  The invariant of the parser that keeps every access to \<open>storedInputData\<close> inside
  the array: the buffer has its declared size, the byte count of the sysex message
  being collected is non-negative and below \<^verbatim>\<open>MAX_DATA_BYTES\<close>, and at most two
  argument bytes are awaited.
\<close>

definition parser_inv :: "bool \<Rightarrow> FirmataClass \<Rightarrow> bool" where
  "parser_inv large_mem s =
     (length (storedInputData s) = MAX_DATA_BYTES large_mem
      \<and> 0 \<le> sysexBytesRead s \<and> sysexBytesRead s < int (MAX_DATA_BYTES large_mem)
      \<and> waitForData s \<le> 2)"

section \<open>Basic facts\<close>

lemmas command_defs =
  DIGITAL_MESSAGE_def ANALOG_MESSAGE_def REPORT_ANALOG_def REPORT_DIGITAL_def
  SET_PIN_MODE_def SET_DIGITAL_PIN_VALUE_def REPORT_VERSION_def SYSTEM_RESET_def
  START_SYSEX_def END_SYSEX_def EXTENDED_ANALOG_def STRING_DATA_def REPORT_FIRMWARE_def

lemma andThen_Inr [simp]: "andThen (Inr x) f = f x"
  by (simp add: andThen_def)

lemma andThen_Inl [simp]: "andThen (Inl e) f = Inl e"
  by (simp add: andThen_def)

lemma write_byte_bound:
  "FirmataStream s \<Longrightarrow> write_byte c s = Inr (s\<lparr>streamOut := streamOut s @ [c]\<rparr>)"
  by (simp add: write_byte_def)

lemma write_byte_unbound: "\<not> FirmataStream s \<Longrightarrow> write_byte c s = Inl NullStream"
  by (simp add: write_byte_def)

lemma mask7: "(0x7F :: 'a::len word) = mask 7" by (simp add: mask_eq_exp_minus_1)
lemma mask4: "(0x0F :: 'a::len word) = mask 4" by (simp add: mask_eq_exp_minus_1)
lemma mask32: "(0xFFFFFFFF :: 'a::len word) = mask 32" by (simp add: mask_eq_exp_minus_1)

lemma pack32_word:
  "(ucast (ucast (v AND 0x7F) :: byte)
      OR push_bit 7 (ucast (ucast (drop_bit 7 v AND 0x7F) :: byte))
      OR push_bit 14 (ucast (ucast (drop_bit 14 v AND 0x7F) :: byte))
      OR push_bit 21 (ucast (ucast (drop_bit 21 v AND 0x7F) :: byte))
      OR push_bit 28 (ucast (ucast (drop_bit 28 v AND 0x0F) :: byte))) = (v :: 32 word)"
  (is "?lhs = v")
proof (rule bit_word_eqI)
  fix n :: nat
  assume "n < LENGTH(32)"
  then have n: "n < 32" by simp
  consider "n < 7" | "7 \<le> n" "n < 14" | "14 \<le> n" "n < 21" | "21 \<le> n" "n < 28" | "28 \<le> n" "n < 32"
    using n by linarith
  then show "bit ?lhs n = bit v n"
    unfolding mask7 mask4
    by cases (auto simp add: bit_simps)
qed

lemma top_nibble_word: "(ucast (drop_bit 28 v AND 0x0F) :: byte) = ucast (drop_bit 28 (v :: 32 word))"
  unfolding mask4 by (rule bit_word_eqI) (auto simp add: bit_simps dest: bit_imp_le_length)

lemma top_nibble_bound: "(ucast (drop_bit 28 (v :: 32 word)) :: byte) \<le> 0x0F"
proof -
  have "(ucast (drop_bit 28 v) :: byte) = ucast (drop_bit 28 v) AND mask 4"
    by (rule bit_word_eqI) (auto simp add: bit_simps dest: bit_imp_le_length)
  moreover have "(ucast (drop_bit 28 v) :: byte) AND mask 4 \<le> mask 4"
    by (rule word_and_le1)
  ultimately show ?thesis by (simp add: mask4)
qed

lemma pack64_word:
  "(0 + ucast (ucast (v AND 0xFFFFFFFF) :: 32 word) + push_bit 32 (ucast (ucast (drop_bit 32 v) :: 32 word))) = (v :: 64 word)"
proof -
  let ?lo = "ucast (ucast (v AND mask 32) :: 32 word) :: 64 word"
  let ?hi = "push_bit 32 (ucast (ucast (drop_bit 32 v) :: 32 word)) :: 64 word"
  have "?lo + ?hi = ?lo OR ?hi"
    by (rule disjunctive_add) (simp add: bit_simps)
  also have "\<dots> = v"
  proof (rule bit_word_eqI)
    fix n :: nat
    assume "n < LENGTH(64)"
    then have n: "n < 64" by simp
    consider "n < 32" | "32 \<le> n" "n < 64" using n by linarith
    then show "bit (?lo OR ?hi) n = bit v n"
      by cases (auto simp add: bit_simps)
  qed
  finally show ?thesis by (simp add: mask32)
qed

lemma pack14_word:
  assumes v: "v \<le> 16383"
  shows "(ucast ((ucast (ucast (v AND 0x7F) :: byte) :: 32 word) OR push_bit 7 (ucast (ucast (drop_bit 7 v AND 0x7F) :: byte)))) = (v :: 16 word)"
  (is "?lhs = v")
proof (rule bit_word_eqI)
  fix n :: nat
  assume "n < LENGTH(16)"
  then have n: "n < 16" by simp
  have "v < 2 ^ 14" using v by (simp add: word_less_nat_alt word_le_nat_alt)
  then have "v AND mask 14 = v" by (rule less_mask_eq)
  then have "bit v n = bit (v AND mask 14) n" by simp
  then have hi: "14 \<le> n \<Longrightarrow> \<not> bit v n" by (simp add: bit_simps)
  consider "n < 7" | "7 \<le> n" "n < 14" | "14 \<le> n" "n < 16" using n by linarith
  then show "bit ?lhs n = bit v n"
    unfolding mask7
    using hi by cases (auto simp add: bit_simps)
qed

lemma sendPackedUInt32_bound:
  "FirmataStream s \<Longrightarrow> sendPackedUInt32 v s =
     Inr (s\<lparr>streamOut := streamOut s @
       [ucast (v AND 0x7F), ucast (drop_bit 7 v AND 0x7F), ucast (drop_bit 14 v AND 0x7F),
        ucast (drop_bit 21 v AND 0x7F), ucast (drop_bit 28 v AND 0x0F)]\<rparr>)"
  by (simp add: sendPackedUInt32_def write_byte_bound)

lemma decodePackedUInt32_sent:
  "decodePackedUInt32
       [ucast (v AND 0x7F), ucast (drop_bit 7 v AND 0x7F), ucast (drop_bit 14 v AND 0x7F),
        ucast (drop_bit 21 v AND 0x7F), ucast (drop_bit 28 v AND 0x0F)] = Some v"
  using pack32_word [of v] by (simp add: decodePackedUInt32_def)

section \<open>Packed integers survive the wire\<close>

text \<open>
  Claim C5. On a bound transport, for every 32-bit value \<open>v\<close> the five bytes that
  \<open>sendPackedUInt32\<close> writes decode with \<open>decodePackedUInt32\<close> to \<open>v\<close> again, and the
  fifth byte is bits 28 to 31 of \<open>v\<close> and nothing else; for every 16-bit value up to
  16383 the two bytes of \<open>sendPackedUInt14\<close> decode with \<open>decodePackedUInt14\<close> to the
  value; and for every 64-bit value the ten bytes of \<open>sendPackedUInt64\<close> decode with
  \<open>decodePackedUInt64\<close> to the value.
\<close>

theorem packed_integer_roundtrip:
  assumes "FirmataStream s"
  shows "(\<exists>s'. sendPackedUInt32 v s = Inr s' \<and> length (written s s') = 5
            \<and> decodePackedUInt32 (written s s') = Some v
            \<and> written s s' ! 4 = ucast (drop_bit 28 v) \<and> written s s' ! 4 \<le> 0x0F)
       \<and> (x \<le> 16383 \<longrightarrow>
            (\<exists>s'. sendPackedUInt14 x s = Inr s' \<and> length (written s s') = 2
               \<and> decodePackedUInt14 (written s s') = Some x))
       \<and> (\<exists>s'. sendPackedUInt64 w s = Inr s' \<and> length (written s s') = 10
            \<and> decodePackedUInt64 (written s s') = Some w)"
proof (intro conjI impI)
  show "\<exists>s'. sendPackedUInt32 v s = Inr s' \<and> length (written s s') = 5
            \<and> decodePackedUInt32 (written s s') = Some v
            \<and> written s s' ! 4 = ucast (drop_bit 28 v) \<and> written s s' ! 4 \<le> 0x0F"
    using assms decodePackedUInt32_sent [of v] top_nibble_bound [of v]
    by (simp add: sendPackedUInt32_bound written_def top_nibble_word)
next
  assume "x \<le> 16383"
  then show "\<exists>s'. sendPackedUInt14 x s = Inr s' \<and> length (written s s') = 2
               \<and> decodePackedUInt14 (written s s') = Some x"
    using assms pack14_word [of x]
    by (simp add: sendPackedUInt14_def write_byte_bound written_def decodePackedUInt14_def)
next
  have "decodePackedUInt64
       ([ucast (lo AND 0x7F), ucast (drop_bit 7 lo AND 0x7F), ucast (drop_bit 14 lo AND 0x7F),
        ucast (drop_bit 21 lo AND 0x7F), ucast (drop_bit 28 lo AND 0x0F)] @
        [ucast (hi AND 0x7F), ucast (drop_bit 7 hi AND 0x7F), ucast (drop_bit 14 hi AND 0x7F),
        ucast (drop_bit 21 hi AND 0x7F), ucast (drop_bit 28 hi AND 0x0F)])
      = Some (0 + ucast lo + push_bit 32 (ucast hi))" for lo hi :: "32 word"
    using decodePackedUInt32_sent [of lo] decodePackedUInt32_sent [of hi]
    by (simp add: decodePackedUInt64_def decodePackedUInt32_def)
  from this [of "ucast (w AND 0xFFFFFFFF)" "ucast (drop_bit 32 w)"]
  show "\<exists>s'. sendPackedUInt64 w s = Inr s' \<and> length (written s s') = 10
            \<and> decodePackedUInt64 (written s s') = Some w"
    using assms pack64_word [of w]
    by (simp add: sendPackedUInt64_def sendPackedUInt32_bound written_def)
qed


theorem packed_integer_roundtrip_witness:
  "FirmataStream (exampleEngine False) \<and> (1000 :: 16 word) \<le> 16383
   \<and> (\<exists>s'. sendPackedUInt32 0xDEADBEEF (exampleEngine False) = Inr s'
          \<and> decodePackedUInt32 (written (exampleEngine False) s') = Some 0xDEADBEEF)
   \<and> (\<exists>s'. sendPackedUInt14 1000 (exampleEngine False) = Inr s'
          \<and> decodePackedUInt14 (written (exampleEngine False) s') = Some 1000)
   \<and> (\<exists>s'. sendPackedUInt64 0x0123456789ABCDEF (exampleEngine False) = Inr s'
          \<and> decodePackedUInt64 (written (exampleEngine False) s') = Some 0x0123456789ABCDEF)"
proof -
  have bound: "FirmataStream (exampleEngine False)"
    by (simp add: exampleEngine_def)
  have small: "(1000 :: 16 word) \<le> 16383"
    by simp
  from packed_integer_roundtrip [OF bound, of "0xDEADBEEF" 1000 "0x0123456789ABCDEF"] bound small
  show ?thesis by blast
qed

section \<open>System reset\<close>

lemma forEach_append:
  "forEach (xs @ ys) f s = andThen (forEach xs f s) (forEach ys f)"
  by (induction xs arbitrary: s) (simp_all add: andThen_def split: sum.splits)

lemma storeAt_in_range:
  "0 \<le> i \<Longrightarrow> i < int (length (storedInputData s)) \<Longrightarrow>
     storeAt i v s = Inr (s\<lparr>storedInputData := (storedInputData s)[nat i := v]\<rparr>)"
  by (simp add: storeAt_def)

lemma loadAt_in_range:
  "0 \<le> i \<Longrightarrow> i < int (length (storedInputData s)) \<Longrightarrow>
     loadAt i s = Inr (storedInputData s ! nat i)"
  by (simp add: loadAt_def)

lemma zero_fill:
  "k \<le> length (storedInputData s) \<Longrightarrow>
     forEach [0..<k] (\<lambda>i. storeAt (int i) 0) s =
       Inr (s\<lparr>storedInputData := replicate k 0 @ drop k (storedInputData s)\<rparr>)"
proof (induction k)
  case 0
  then show ?case by simp
next
  case (Suc k)
  have "(replicate k 0 @ drop k (storedInputData s))[k := 0]
          = replicate (Suc k) 0 @ drop (Suc k) (storedInputData s)"
  proof -
    from Suc.prems have "drop k (storedInputData s)
        = storedInputData s ! k # drop (Suc k) (storedInputData s)"
      by (simp add: Cons_nth_drop_Suc)
    then show ?thesis
      by (simp add: list_update_append replicate_app_Cons_same)
  qed
  with Suc show ?case
    by (simp add: forEach_append storeAt_def)
qed

lemma systemReset_eq:
  assumes "length (storedInputData s) = MAX_DATA_BYTES large_mem"
  shows "systemReset large_mem s =
     Inr (s\<lparr>waitForData := 0, executeMultiByteCommand := 0, multiByteChannel := 0,
           storedInputData := replicate (MAX_DATA_BYTES large_mem) 0,
           parsingSysex := False, sysexBytesRead := 0, resetting := False,
           calls := calls s @ (if currentSystemResetCallback s then [SystemResetCallback] else [])\<rparr>)"
  using assms by (simp add: systemReset_def zero_fill Let_def)

lemma parse_SYSTEM_RESET:
  assumes "length (storedInputData s) = MAX_DATA_BYTES large_mem"
  shows "parse large_mem SYSTEM_RESET s =
     Inr (s\<lparr>waitForData := 0, executeMultiByteCommand := 0, multiByteChannel := 0,
           storedInputData := replicate (MAX_DATA_BYTES large_mem) 0,
           parsingSysex := False, sysexBytesRead := 0, resetting := False,
           calls := calls s @ (if currentSystemResetCallback s then [SystemResetCallback] else [])\<rparr>)"
  using assms by (simp add: parse_def systemReset_eq)

lemma FirmataClass_new_eq:
  "FirmataClass_new large_mem total_pins = Inr (zeroInitialized large_mem total_pins)"
  by (simp add: FirmataClass_new_def systemReset_eq zeroInitialized_def)

text \<open>
  Claim C3. Whatever the parser is doing (the buffer having its declared size), the
  byte \<^verbatim>\<open>SYSTEM_RESET\<close> is accepted and leaves it idle: not collecting sysex, no
  argument byte awaited, no pending command, channel and byte count zero, the whole
  buffer zeroed, so that \<open>isParsingMessage\<close> is false. The system-reset handler is
  called exactly when one is attached, and nothing is written to the transport.
\<close>

theorem reset_byte_overrides_every_state:
  assumes "length (storedInputData s) = MAX_DATA_BYTES large_mem"
  shows "\<exists>s'. parse large_mem SYSTEM_RESET s = Inr s'
          \<and> \<not> parsingSysex s' \<and> waitForData s' = 0 \<and> executeMultiByteCommand s' = 0
          \<and> multiByteChannel s' = 0 \<and> sysexBytesRead s' = 0
          \<and> storedInputData s' = replicate (MAX_DATA_BYTES large_mem) 0
          \<and> calls s' = calls s @ (if currentSystemResetCallback s then [SystemResetCallback] else [])
          \<and> \<not> isParsingMessage s' \<and> \<not> resetting s'
          \<and> streamOut s' = streamOut s"
  using assms by (simp add: parse_SYSTEM_RESET isParsingMessage_def)

theorem reset_byte_overrides_every_state_witness:
  "length (storedInputData midSysex) = MAX_DATA_BYTES False \<and> isParsingMessage midSysex
   \<and> (\<exists>s'. parse False SYSTEM_RESET midSysex = Inr s' \<and> \<not> isParsingMessage s'
          \<and> storedInputData s' = replicate 64 0 \<and> calls s' = [SystemResetCallback])"
proof -
  have len: "length (storedInputData midSysex) = MAX_DATA_BYTES False"
    by (simp add: midSysex_def MAX_DATA_BYTES_def)
  have busy: "isParsingMessage midSysex"
    by (simp add: midSysex_def isParsingMessage_def)
  from reset_byte_overrides_every_state [OF len] len busy show ?thesis
    by (auto simp add: midSysex_def exampleEngine_def zeroInitialized_def MAX_DATA_BYTES_def)
qed

text \<open>
  A pin with state 5 and mode 1, no system-reset handler attached: after the byte
  \<^verbatim>\<open>SYSTEM_RESET\<close> the state is still 5 and the mode still 1.
\<close>

theorem reset_keeps_pin_table_counterexample:
  "currentSystemResetCallback configuredPin = False
   \<and> pinState configuredPin = [5]
   \<and> map_sum id pinState (parse False SYSTEM_RESET configuredPin) = Inr [5]
   \<and> map_sum id pinConfig (parse False SYSTEM_RESET configuredPin) = Inr [1]"
  by (simp add: parse_SYSTEM_RESET configuredPin_def zeroInitialized_def)

text \<open>
  Claim C2, as the code has it. The pin table is all zero (every mode
  \<^verbatim>\<open>PIN_MODE_INPUT\<close>, every state 0) when the constructor returns. The byte
  \<^verbatim>\<open>SYSTEM_RESET\<close>, fed at any point, leaves every pin's mode and every pin's state
  as they were: the engine's reset does not touch the pin table, it only calls the
  system-reset handler when one is attached.
\<close>

theorem reset_leaves_pin_table:
  assumes "length (storedInputData s) = MAX_DATA_BYTES large_mem"
  shows "(\<exists>s0. FirmataClass_new large_mem total_pins = Inr s0
            \<and> pinConfig s0 = replicate total_pins PIN_MODE_INPUT
            \<and> pinState s0 = replicate total_pins 0)
       \<and> (\<exists>s'. parse large_mem SYSTEM_RESET s = Inr s'
            \<and> pinConfig s' = pinConfig s \<and> pinState s' = pinState s
            \<and> calls s' = calls s @ (if currentSystemResetCallback s then [SystemResetCallback] else []))"
  using assms
  by (simp add: parse_SYSTEM_RESET FirmataClass_new_eq zeroInitialized_def PIN_MODE_INPUT_def)

theorem reset_leaves_pin_table_witness:
  "length (storedInputData configuredPin) = MAX_DATA_BYTES False
   \<and> (\<exists>s'. parse False SYSTEM_RESET configuredPin = Inr s'
          \<and> pinConfig s' = [1] \<and> pinState s' = [5])"
proof -
  have len: "length (storedInputData configuredPin) = MAX_DATA_BYTES False"
    by (simp add: configuredPin_def zeroInitialized_def)
  from reset_leaves_pin_table [OF len, of 1] len show ?thesis
    by (auto simp add: configuredPin_def)
qed

section \<open>Bytes that start a message\<close>

lemma parse_new_message:
  assumes "inputData \<noteq> SYSTEM_RESET" and "\<not> parsingSysex s"
    and "\<not> (waitForData s > 0 \<and> inputData < 128)"
  shows "parse large_mem inputData s =
     (if inputData < 0xF0
      then startCommand large_mem (inputData AND 0xF0) (s\<lparr>multiByteChannel := inputData AND 0x0F\<rparr>)
      else startCommand large_mem inputData s)"
  unfolding parse_def by (simp only: assms if_False)

lemma startCommand_unrecognized:
  "\<not> recognized command \<Longrightarrow> startCommand large_mem command s = Inr s"
  by (simp add: startCommand_def recognized_def)

lemma recognized_SYSTEM_RESET: "recognized (commandOf SYSTEM_RESET)"
  by (simp add: recognized_def commandOf_def SYSTEM_RESET_def)

lemma parse_unrecognized_idle:
  assumes "\<not> isParsingMessage s" and "\<not> recognized (commandOf inputData)"
  shows "parse large_mem inputData s =
           Inr (if inputData < 0xF0 then s\<lparr>multiByteChannel := inputData AND 0x0F\<rparr> else s)"
proof -
  from assms(2) have "inputData \<noteq> SYSTEM_RESET"
    using recognized_SYSTEM_RESET by auto
  moreover from assms(1) have "\<not> parsingSysex s" and "\<not> (waitForData s > 0 \<and> inputData < 128)"
    by (simp_all add: isParsingMessage_def)
  ultimately have "parse large_mem inputData s =
     (if inputData < 0xF0
      then startCommand large_mem (inputData AND 0xF0) (s\<lparr>multiByteChannel := inputData AND 0x0F\<rparr>)
      else startCommand large_mem inputData s)"
    by (rule parse_new_message)
  with assms(2) show ?thesis
    by (cases "inputData < 0xF0") (simp_all add: startCommand_unrecognized commandOf_def)
qed

text \<open>
  The byte \<^verbatim>\<open>0x85\<close> has no case in the \<^verbatim>\<open>switch\<close>, yet it sets the channel field
  of an idle engine from 0 to 5.
\<close>

theorem unrecognized_byte_counterexample:
  "\<not> isParsingMessage (zeroInitialized False 1)
   \<and> \<not> recognized (commandOf 0x85)
   \<and> multiByteChannel (zeroInitialized False 1) = 0
   \<and> map_sum id multiByteChannel (parse False 0x85 (zeroInitialized False 1)) = Inr 5"
proof -
  have a: "\<not> recognized (commandOf 0x85)"
    by (simp add: recognized_def commandOf_def command_defs)
  have b: "\<not> isParsingMessage (zeroInitialized False 1)"
    by (simp add: zeroInitialized_def isParsingMessage_def)
  have c: "multiByteChannel (zeroInitialized False 1) = 0"
    by (simp add: zeroInitialized_def)
  from parse_unrecognized_idle [OF b a, of False] a b c show ?thesis
    by simp
qed

text \<open>
  Claim C9, as the code has it. In the idle state a byte whose command has no case in
  the \<^verbatim>\<open>switch\<close> is accepted without any call, any output or any change of state,
  except that for a byte below \<^verbatim>\<open>0xF0\<close> the channel field is overwritten with the
  byte's low nibble.
\<close>

theorem unrecognized_byte_when_idle:
  assumes "\<not> isParsingMessage s" and "\<not> recognized (commandOf inputData)"
  shows "parse large_mem inputData s =
           Inr (if inputData < 0xF0 then s\<lparr>multiByteChannel := inputData AND 0x0F\<rparr> else s)"
  using assms by (rule parse_unrecognized_idle)

theorem unrecognized_byte_when_idle_witness:
  "\<not> isParsingMessage (exampleEngine False) \<and> \<not> recognized (commandOf 0x85)
   \<and> \<not> recognized (commandOf 0xF1)
   \<and> parse False 0x85 (exampleEngine False) = Inr ((exampleEngine False)\<lparr>multiByteChannel := 5\<rparr>)
   \<and> parse False 0xF1 (exampleEngine False) = Inr (exampleEngine False)"
proof -
  have idle: "\<not> isParsingMessage (exampleEngine False)"
    by (simp add: isParsingMessage_def exampleEngine_def zeroInitialized_def)
  have a: "\<not> recognized (commandOf 0x85)" and b: "\<not> recognized (commandOf 0xF1)"
    by (simp_all add: recognized_def commandOf_def command_defs)
  from unrecognized_byte_when_idle [OF idle a, of False]
    unrecognized_byte_when_idle [OF idle b, of False] idle a b
  show ?thesis by simp
qed

section \<open>Fixed-length messages\<close>

lemma parse_argument_byte:
  assumes "inputData < 128" and "\<not> parsingSysex s" and "0 < waitForData s"
  shows "parse large_mem inputData s =
     andThen (storeAt (uint (waitForData s - 1)) inputData (s\<lparr>waitForData := waitForData s - 1\<rparr>))
       (\<lambda>s. if waitForData s = 0 \<and> executeMultiByteCommand s \<noteq> 0
            then andThen (executeCommand s) (\<lambda>s. Inr (s\<lparr>executeMultiByteCommand := 0\<rparr>))
            else Inr s)"
proof -
  from assms(1) have "inputData \<noteq> SYSTEM_RESET"
    by (auto simp add: SYSTEM_RESET_def)
  with assms show ?thesis
    by (simp add: parse_def Let_def)
qed

lemma commandOf_below_sysex:
  assumes "commandOf inputData = c" and "c < 0xF0"
  shows "inputData < 0xF0" and "inputData AND 0xF0 = c" and "\<not> inputData < 128 \<or> c < 128"
    and "inputData \<noteq> SYSTEM_RESET"
proof -
  show lt: "inputData < 0xF0"
    using assms by (auto simp add: commandOf_def split: if_splits)
  with assms show eq: "inputData AND 0xF0 = c"
    by (simp add: commandOf_def)
  have "inputData AND 0xF0 \<le> inputData"
    by (rule word_and_le2)
  with eq show "\<not> inputData < 128 \<or> c < 128"
    by auto
  from lt show "inputData \<noteq> SYSTEM_RESET"
    by (auto simp add: SYSTEM_RESET_def)
qed

lemma parse_DIGITAL_MESSAGE:
  assumes "commandOf inputData = DIGITAL_MESSAGE" and "\<not> parsingSysex s"
  shows "parse large_mem inputData s =
     Inr (s\<lparr>multiByteChannel := inputData AND 0x0F, waitForData := 2,
           executeMultiByteCommand := DIGITAL_MESSAGE\<rparr>)"
proof -
  have c: "DIGITAL_MESSAGE < 0xF0" "\<not> DIGITAL_MESSAGE < 128"
    by (simp_all add: DIGITAL_MESSAGE_def)
  from commandOf_below_sysex [OF assms(1) c(1)] c(2)
  have f: "inputData < 0xF0" "inputData AND 0xF0 = DIGITAL_MESSAGE" "\<not> inputData < 128"
    "inputData \<noteq> SYSTEM_RESET"
    by auto
  from f(3) have "\<not> (waitForData s > 0 \<and> inputData < 128)"
    by simp
  from parse_new_message [OF f(4) assms(2) this] f(1,2)
  show ?thesis
    by (simp add: startCommand_def command_defs)
qed

lemma parse_ANALOG_MESSAGE:
  assumes "commandOf inputData = ANALOG_MESSAGE" and "\<not> parsingSysex s"
  shows "parse large_mem inputData s =
     Inr (s\<lparr>multiByteChannel := inputData AND 0x0F, waitForData := 2,
           executeMultiByteCommand := ANALOG_MESSAGE\<rparr>)"
proof -
  have c: "ANALOG_MESSAGE < 0xF0" "\<not> ANALOG_MESSAGE < 128"
    by (simp_all add: ANALOG_MESSAGE_def)
  from commandOf_below_sysex [OF assms(1) c(1)] c(2)
  have f: "inputData < 0xF0" "inputData AND 0xF0 = ANALOG_MESSAGE" "\<not> inputData < 128"
    "inputData \<noteq> SYSTEM_RESET"
    by auto
  from f(3) have "\<not> (waitForData s > 0 \<and> inputData < 128)"
    by simp
  from parse_new_message [OF f(4) assms(2) this] f(1,2)
  show ?thesis
    by (simp add: startCommand_def command_defs)
qed

lemma storeAt_argument:
  assumes "0 < w" and "unat w \<le> length (storedInputData s)"
  shows "storeAt (uint (w - 1)) v s =
           Inr (s\<lparr>storedInputData := (storedInputData s)[unat w - 1 := v]\<rparr>)"
proof -
  from assms(1) have pos: "0 < unat w"
    by (simp add: word_greater_zero_iff unat_gt_0)
  then have idx: "unat (w - 1) = unat w - 1"
    by (simp add: unat_minus_one word_greater_zero_iff unat_gt_0)
  have "uint (w - 1) = int (unat (w - 1))"
    by simp
  with idx have u: "uint (w - 1) = int (unat w - 1)"
    by simp
  from pos assms(2) have "int (unat w - 1) < int (length (storedInputData s))"
    by linarith
  then show ?thesis
    unfolding u by (simp add: storeAt_def)
qed

lemma parse_argument_stored:
  assumes "inputData < 128" and "\<not> parsingSysex s" and "0 < waitForData s"
    and "unat (waitForData s) \<le> length (storedInputData s)"
    and "\<not> (waitForData s = 1 \<and> executeMultiByteCommand s \<noteq> 0)"
  shows "parse large_mem inputData s =
     Inr (s\<lparr>waitForData := waitForData s - 1,
           storedInputData := (storedInputData s)[unat (waitForData s) - 1 := inputData]\<rparr>)"
proof -
  from assms(5) have "\<not> (waitForData s - 1 = 0 \<and> executeMultiByteCommand s \<noteq> 0)"
    by auto
  then show ?thesis
    using storeAt_argument [of "waitForData s" "s\<lparr>waitForData := waitForData s - 1\<rparr>" inputData]
      assms(3,4)
    by (auto simp add: parse_argument_byte [OF assms(1-3)])
qed

lemma parse_argument_completes:
  assumes "inputData < 128" and "\<not> parsingSysex s" and "waitForData s = 1"
    and "storedInputData s \<noteq> []" and "executeMultiByteCommand s \<noteq> 0"
  shows "parse large_mem inputData s =
     andThen (executeCommand (s\<lparr>waitForData := 0,
                                 storedInputData := (storedInputData s)[0 := inputData]\<rparr>))
       (\<lambda>s. Inr (s\<lparr>executeMultiByteCommand := 0\<rparr>))"
proof -
  from assms(3) have pos: "0 < waitForData s"
    by simp
  from assms(3,4) have "unat (waitForData s) \<le> length (storedInputData s)"
    by (simp add: Suc_leI)
  from storeAt_argument [OF pos, of "s\<lparr>waitForData := waitForData s - 1\<rparr>" inputData] this
  have "storeAt (uint (waitForData s - 1)) inputData (s\<lparr>waitForData := waitForData s - 1\<rparr>)
      = Inr (s\<lparr>waitForData := waitForData s - 1,
               storedInputData := (storedInputData s)[unat (waitForData s) - 1 := inputData]\<rparr>)"
    by simp
  with assms(3,5) show ?thesis
    by (simp add: parse_argument_byte [OF assms(1,2) pos])
qed

lemma low_or_high:
  assumes "lo < 128"
  shows "push_bit 7 (uint hi) + uint lo = uint (lo :: byte) OR push_bit 7 (uint (hi :: byte))"
proof -
  from assms have "uint lo < 2 ^ 7"
    by (simp add: word_less_alt)
  then have "uint lo = take_bit 7 (uint lo)"
    by (simp add: take_bit_int_eq_self)
  then have "push_bit 7 (uint hi) + uint lo = push_bit 7 (uint hi) + take_bit 7 (uint lo)"
    by simp
  also have "\<dots> = push_bit 7 (uint hi) OR take_bit 7 (uint lo)"
    by (rule disjunctive_add) (simp add: bit_simps)
  also have "\<dots> = uint lo OR push_bit 7 (uint hi)"
    using \<open>uint lo = take_bit 7 (uint lo)\<close> by (simp add: or.commute)
  finally show ?thesis .
qed

lemma executeCommand_DIGITAL_MESSAGE:
  assumes "executeMultiByteCommand s = DIGITAL_MESSAGE" and "2 \<le> length (storedInputData s)"
  shows "executeCommand s =
     Inr (s\<lparr>calls := calls s @
        (if currentDigitalCallback s
         then [DigitalCallback (multiByteChannel s)
                 (push_bit 7 (uint (storedInputData s ! 0)) + uint (storedInputData s ! 1))]
         else [])\<rparr>)"
proof -
  from assms(2) have "storedInputData s \<noteq> []" and "1 < length (storedInputData s)"
    by auto
  with assms(1) show ?thesis
    by (simp add: executeCommand_def command_defs loadAt_def)
qed

lemma digital_message_complete:
  assumes "commandOf inputData = DIGITAL_MESSAGE" and "\<not> parsingSysex s"
    and "low7 < 128" and "high7 < 128" and "2 \<le> length (storedInputData s)"
  shows "forEach [inputData, low7, high7] (parse large_mem) s =
     Inr (s\<lparr>multiByteChannel := inputData AND 0x0F, waitForData := 0,
           executeMultiByteCommand := 0,
           storedInputData := (storedInputData s)[1 := low7, 0 := high7],
           calls := calls s @
             (if currentDigitalCallback s
              then [DigitalCallback (inputData AND 0x0F) (uint low7 OR push_bit 7 (uint high7))]
              else [])\<rparr>)"
proof -
  let ?s1 = "s\<lparr>multiByteChannel := inputData AND 0x0F, waitForData := 2,
           executeMultiByteCommand := DIGITAL_MESSAGE\<rparr>"
  let ?s2 = "?s1\<lparr>waitForData := 1, storedInputData := (storedInputData s)[1 := low7]\<rparr>"
  have 1: "parse large_mem inputData s = Inr ?s1"
    using assms(1,2) by (rule parse_DIGITAL_MESSAGE)
  have 2: "parse large_mem low7 ?s1 = Inr ?s2"
    using parse_argument_stored [of low7 ?s1 large_mem] assms(2,3,5) by simp
  have 3: "parse large_mem high7 ?s2 =
     andThen (executeCommand (?s2\<lparr>waitForData := 0,
                 storedInputData := (storedInputData s)[1 := low7, 0 := high7]\<rparr>))
       (\<lambda>s. Inr (s\<lparr>executeMultiByteCommand := 0\<rparr>))"
  proof -
    from assms(5) have "storedInputData ?s2 \<noteq> []"
      by auto
    moreover have "executeMultiByteCommand ?s2 \<noteq> 0"
      by (simp add: DIGITAL_MESSAGE_def)
    ultimately show ?thesis
      using parse_argument_completes [of high7 ?s2 large_mem] assms(2,4)
      by simp
  qed
  have 4: "executeCommand (?s2\<lparr>waitForData := 0,
                 storedInputData := (storedInputData s)[1 := low7, 0 := high7]\<rparr>) =
      Inr (?s2\<lparr>waitForData := 0,
                 storedInputData := (storedInputData s)[1 := low7, 0 := high7],
                 calls := calls s @
             (if currentDigitalCallback s
              then [DigitalCallback (inputData AND 0x0F) (uint low7 OR push_bit 7 (uint high7))]
              else [])\<rparr>)"
  proof -
    from assms(5) have "storedInputData s \<noteq> []"
      by auto
    with assms(5) low_or_high [OF assms(3), of high7] show ?thesis
      by (simp add: executeCommand_DIGITAL_MESSAGE)
  qed
  show ?thesis
    by (simp only: forEach.simps 1 2 3 4 andThen_Inr, simp)
qed


lemma update_first_five:
  assumes "5 \<le> length xs"
  shows "xs[0 := a, 1 := b, 2 := c, 3 := d, 4 := e] = [a, b, c, d, e] @ drop 5 xs"
  using assms by (auto simp add: Suc_le_length_iff numeral_eq_Suc)

lemma processSysexMessage_other:
  assumes "storedInputData s \<noteq> []" and "storedInputData s ! 0 \<noteq> REPORT_FIRMWARE"
    and "storedInputData s ! 0 \<noteq> STRING_DATA"
  shows "processSysexMessage s =
     Inr (s\<lparr>calls := calls s @
        (if currentSysexCallback s
         then [SysexCallback (storedInputData s ! 0) (word_of_int (sysexBytesRead s - 1))
                 (take (unat (word_of_int (sysexBytesRead s - 1) :: byte))
                    (drop 1 (storedInputData s)))]
         else [])\<rparr>)"
  using assms by (simp add: processSysexMessage_def loadAt_def Let_def)

lemma executeCommand_ANALOG_MESSAGE:
  assumes "executeMultiByteCommand s = ANALOG_MESSAGE" and "5 \<le> length (storedInputData s)"
  shows "executeCommand s =
     Inr (s\<lparr>storedInputData :=
             [EXTENDED_ANALOG, multiByteChannel s, storedInputData s ! 1, storedInputData s ! 0,
              END_SYSEX] @ drop 5 (storedInputData s),
           sysexBytesRead := 4,
           calls := calls s @
             (if currentSysexCallback s
              then [SysexCallback EXTENDED_ANALOG 3
                      [multiByteChannel s, storedInputData s ! 1, storedInputData s ! 0]]
              else [])\<rparr>)"
proof -
  let ?b0 = "storedInputData s ! 0" and ?b1 = "storedInputData s ! 1"
  let ?buf = "[EXTENDED_ANALOG, multiByteChannel s, ?b1, ?b0, END_SYSEX] @ drop 5 (storedInputData s)"
  let ?t = "s\<lparr>storedInputData := ?buf, sysexBytesRead := 4\<rparr>"
  from assms(2) have len: "0 < length (storedInputData s)" "1 < length (storedInputData s)"
    "2 < length (storedInputData s)" "3 < length (storedInputData s)"
    "4 < length (storedInputData s)"
    by auto
  have "executeCommand s = processSysexMessage ?t"
    using assms(1) len update_first_five [OF assms(2), of EXTENDED_ANALOG "multiByteChannel s" ?b1 ?b0 END_SYSEX]
    by (simp add: executeCommand_def loadAt_def storeAt_def)
  also have "\<dots> = Inr (?t\<lparr>calls := calls ?t @
        (if currentSysexCallback ?t
         then [SysexCallback (storedInputData ?t ! 0) (word_of_int (sysexBytesRead ?t - 1))
                 (take (unat (word_of_int (sysexBytesRead ?t - 1) :: byte))
                    (drop 1 (storedInputData ?t)))]
         else [])\<rparr>)"
    by (rule processSysexMessage_other) (simp_all add: command_defs)
  finally show ?thesis
    by simp
qed

lemma analog_message_complete:
  assumes "commandOf inputData = ANALOG_MESSAGE" and "\<not> parsingSysex s"
    and "low7 < 128" and "high7 < 128" and "5 \<le> length (storedInputData s)"
  shows "forEach [inputData, low7, high7] (parse large_mem) s =
     Inr (s\<lparr>multiByteChannel := inputData AND 0x0F, waitForData := 0,
           executeMultiByteCommand := 0,
           storedInputData :=
             [EXTENDED_ANALOG, inputData AND 0x0F, low7, high7, END_SYSEX]
               @ drop 5 (storedInputData s),
           sysexBytesRead := 4,
           calls := calls s @
             (if currentSysexCallback s
              then [SysexCallback EXTENDED_ANALOG 3 [inputData AND 0x0F, low7, high7]]
              else [])\<rparr>)"
proof -
  let ?s1 = "s\<lparr>multiByteChannel := inputData AND 0x0F, waitForData := 2,
           executeMultiByteCommand := ANALOG_MESSAGE\<rparr>"
  let ?s2 = "?s1\<lparr>waitForData := 1, storedInputData := (storedInputData s)[1 := low7]\<rparr>"
  let ?s3 = "?s2\<lparr>waitForData := 0,
                 storedInputData := (storedInputData s)[1 := low7, 0 := high7]\<rparr>"
  from assms(5) have ne: "storedInputData s \<noteq> []" and one: "1 < length (storedInputData s)"
    by auto
  have 1: "parse large_mem inputData s = Inr ?s1"
    using assms(1,2) by (rule parse_ANALOG_MESSAGE)
  have 2: "parse large_mem low7 ?s1 = Inr ?s2"
    using parse_argument_stored [of low7 ?s1 large_mem] assms(2,3,5) by simp
  have 3: "parse large_mem high7 ?s2 =
     andThen (executeCommand ?s3) (\<lambda>s. Inr (s\<lparr>executeMultiByteCommand := 0\<rparr>))"
  proof -
    from ne have "storedInputData ?s2 \<noteq> []"
      by simp
    moreover have "executeMultiByteCommand ?s2 \<noteq> 0"
      by (simp add: ANALOG_MESSAGE_def)
    ultimately show ?thesis
      using parse_argument_completes [of high7 ?s2 large_mem] assms(2,4)
      by simp
  qed
  have 4: "executeCommand ?s3 =
     Inr (?s3\<lparr>storedInputData :=
             [EXTENDED_ANALOG, inputData AND 0x0F, low7, high7, END_SYSEX]
               @ drop 5 (storedInputData s),
           sysexBytesRead := 4,
           calls := calls s @
             (if currentSysexCallback s
              then [SysexCallback EXTENDED_ANALOG 3 [inputData AND 0x0F, low7, high7]]
              else [])\<rparr>)"
    using executeCommand_ANALOG_MESSAGE [of ?s3] assms(5) ne one
    by (simp add: nth_list_update)
  show ?thesis
    by (simp only: forEach.simps 1 2 3 4 andThen_Inr, simp)
qed

lemma parse_argument_general:
  assumes "inputData < 128" and "\<not> parsingSysex s" and "0 < waitForData s"
    and "unat (waitForData s) \<le> length (storedInputData s)"
  shows "parse large_mem inputData s =
     (let s1 = s\<lparr>waitForData := waitForData s - 1,
                  storedInputData := (storedInputData s)[unat (waitForData s) - 1 := inputData]\<rparr>
      in if waitForData s1 = 0 \<and> executeMultiByteCommand s1 \<noteq> 0
         then andThen (executeCommand s1) (\<lambda>s. Inr (s\<lparr>executeMultiByteCommand := 0\<rparr>))
         else Inr s1)"
proof -
  have "storeAt (uint (waitForData s - 1)) inputData (s\<lparr>waitForData := waitForData s - 1\<rparr>)
      = Inr (s\<lparr>waitForData := waitForData s - 1,
               storedInputData := (storedInputData s)[unat (waitForData s) - 1 := inputData]\<rparr>)"
    using storeAt_argument [OF assms(3), of "s\<lparr>waitForData := waitForData s - 1\<rparr>" inputData]
      assms(4) by simp
  then show ?thesis
    by (simp only: parse_argument_byte [OF assms(1-3)] andThen_Inr Let_def)
qed

lemma decodePackedUInt14_pair:
  "map_option uint (decodePackedUInt14 [lo, hi]) = Some (uint lo OR push_bit 7 (uint hi))"
proof -
  have "uint (ucast ((ucast lo :: 32 word) OR push_bit 7 (ucast hi)) :: 16 word)
      = uint lo OR push_bit 7 (uint hi)"
    by (rule bit_eqI) (auto simp add: bit_simps dest: bit_imp_le_length)
  then show ?thesis
    by (simp add: decodePackedUInt14_def)
qed

lemma parse_two_byte_command:
  assumes "inputData = SET_PIN_MODE \<or> inputData = SET_DIGITAL_PIN_VALUE" and "\<not> parsingSysex s"
  shows "parse large_mem inputData s =
     Inr (s\<lparr>waitForData := 2, executeMultiByteCommand := inputData\<rparr>)"
proof -
  from assms(1) have f: "inputData \<noteq> SYSTEM_RESET" "\<not> inputData < 128" "\<not> inputData < 0xF0"
    by (auto simp add: command_defs)
  from f(2) have "\<not> (waitForData s > 0 \<and> inputData < 128)"
    by simp
  from parse_new_message [OF f(1) assms(2) this] f(3) assms(1)
  show ?thesis
    by (auto simp add: startCommand_def)
qed

lemma two_byte_command_complete:
  assumes "inputData = SET_PIN_MODE \<or> inputData = SET_DIGITAL_PIN_VALUE" and "\<not> parsingSysex s"
    and "first < 128" and "second < 128" and "2 \<le> length (storedInputData s)"
  shows "forEach [inputData, first, second] (parse large_mem) s =
     andThen (executeCommand (s\<lparr>executeMultiByteCommand := inputData, waitForData := 0,
                 storedInputData := (storedInputData s)[1 := first, 0 := second]\<rparr>))
       (\<lambda>s. Inr (s\<lparr>executeMultiByteCommand := 0\<rparr>))"
proof -
  let ?s1 = "s\<lparr>waitForData := 2, executeMultiByteCommand := inputData\<rparr>"
  let ?s2 = "?s1\<lparr>waitForData := 1, storedInputData := (storedInputData s)[1 := first]\<rparr>"
  from assms(1) have nz: "inputData \<noteq> 0"
    by (auto simp add: command_defs)
  have 1: "parse large_mem inputData s = Inr ?s1"
    using assms(1,2) by (rule parse_two_byte_command)
  have 2: "parse large_mem first ?s1 = Inr ?s2"
    using parse_argument_stored [of first ?s1 large_mem] assms(2,3,5) by simp
  have 3: "parse large_mem second ?s2 =
     andThen (executeCommand (?s2\<lparr>waitForData := 0,
                 storedInputData := (storedInputData s)[1 := first, 0 := second]\<rparr>))
       (\<lambda>s. Inr (s\<lparr>executeMultiByteCommand := 0\<rparr>))"
  proof -
    from assms(5) have "storedInputData ?s2 \<noteq> []"
      by auto
    moreover from nz have "executeMultiByteCommand ?s2 \<noteq> 0"
      by simp
    ultimately show ?thesis
      using parse_argument_completes [of second ?s2 large_mem] assms(2,4)
      by simp
  qed
  show ?thesis
    by (simp only: forEach.simps 1 2 3 andThen_Inr, simp add: andThen_def split: sum.splits)
qed

lemma executeCommand_SET_PIN_MODE:
  assumes "executeMultiByteCommand s = SET_PIN_MODE" and "2 \<le> length (storedInputData s)"
  shows "executeCommand s = setPinMode (storedInputData s ! 1) (storedInputData s ! 0) s"
proof -
  from assms(2) have "0 < length (storedInputData s)" "1 < length (storedInputData s)"
    by auto
  with assms(1) show ?thesis
    by (simp add: executeCommand_def command_defs loadAt_def)
qed

lemma executeCommand_SET_DIGITAL_PIN_VALUE:
  assumes "executeMultiByteCommand s = SET_DIGITAL_PIN_VALUE" and "2 \<le> length (storedInputData s)"
  shows "executeCommand s =
     Inr (s\<lparr>calls := calls s @
        (if currentPinValueCallback s
         then [PinValueCallback (storedInputData s ! 1) (uint (storedInputData s ! 0))]
         else [])\<rparr>)"
proof -
  from assms(2) have "0 < length (storedInputData s)" "1 < length (storedInputData s)"
    by auto
  with assms(1) show ?thesis
    by (simp add: executeCommand_def command_defs loadAt_def)
qed

lemma pin_mode_message_complete:
  assumes "\<not> parsingSysex s" and "pin < 128" and "mode < 128"
    and "2 \<le> length (storedInputData s)"
  shows "forEach [SET_PIN_MODE, pin, mode] (parse large_mem) s =
     andThen (setPinMode pin mode (s\<lparr>executeMultiByteCommand := SET_PIN_MODE, waitForData := 0,
                 storedInputData := (storedInputData s)[1 := pin, 0 := mode]\<rparr>))
       (\<lambda>s. Inr (s\<lparr>executeMultiByteCommand := 0\<rparr>))"
proof -
  let ?s3 = "s\<lparr>executeMultiByteCommand := SET_PIN_MODE, waitForData := 0,
                 storedInputData := (storedInputData s)[1 := pin, 0 := mode]\<rparr>"
  from assms(4) have ne: "storedInputData s \<noteq> []" and one: "1 < length (storedInputData s)"
    by auto
  have "executeCommand ?s3 = setPinMode pin mode ?s3"
    using executeCommand_SET_PIN_MODE [of ?s3] assms(4) ne one
    by (simp add: nth_list_update)
  then show ?thesis
    by (simp only: two_byte_command_complete [OF disjI1 [OF refl] assms])
qed

lemma pin_value_message_complete:
  assumes "\<not> parsingSysex s" and "pin < 128" and "v < 128"
    and "2 \<le> length (storedInputData s)"
  shows "forEach [SET_DIGITAL_PIN_VALUE, pin, v] (parse large_mem) s =
     Inr (s\<lparr>waitForData := 0, executeMultiByteCommand := 0,
           storedInputData := (storedInputData s)[1 := pin, 0 := v],
           calls := calls s @
             (if currentPinValueCallback s then [PinValueCallback pin (uint v)] else [])\<rparr>)"
proof -
  let ?s3 = "s\<lparr>executeMultiByteCommand := SET_DIGITAL_PIN_VALUE, waitForData := 0,
                 storedInputData := (storedInputData s)[1 := pin, 0 := v]\<rparr>"
  from assms(4) have ne: "storedInputData s \<noteq> []" and one: "1 < length (storedInputData s)"
    by auto
  have "executeCommand ?s3 = Inr (?s3\<lparr>calls := calls s @
             (if currentPinValueCallback s then [PinValueCallback pin (uint v)] else [])\<rparr>)"
    using executeCommand_SET_DIGITAL_PIN_VALUE [of ?s3] assms(4) ne one
    by (simp add: nth_list_update)
  then show ?thesis
    by (simp only: two_byte_command_complete [OF disjI2 [OF refl] assms] andThen_Inr, simp)
qed
text \<open>
  A set-digital-pin-value message with the bytes \<^verbatim>\<open>0x7F\<close> and \<^verbatim>\<open>0x01\<close>: the
  handler receives the two bytes as they arrived, pin 127 and value 1; the value
  \<open>0x7F | (0x01 << 7) = 255\<close> is not formed.
\<close>

theorem two_byte_value_counterexample:
  "map_sum id calls
      (forEach [SET_DIGITAL_PIN_VALUE, 0x7F, 0x01] (parse False) (exampleEngine False))
     = Inr [PinValueCallback 0x7F 1]
   \<and> uint (0x7F :: byte) OR push_bit 7 (uint (0x01 :: byte)) = 255
   \<and> map_sum id calls
      (forEach [SET_DIGITAL_PIN_VALUE, 0x7F, 0x01] (parse False) (exampleEngine False))
     \<noteq> Inr [PinValueCallback 0x7F (uint (0x7F :: byte) OR push_bit 7 (uint (0x01 :: byte)))]"
proof -
  have p: "\<not> parsingSysex (exampleEngine False)"
    and l: "2 \<le> length (storedInputData (exampleEngine False))"
    and cb: "currentPinValueCallback (exampleEngine False)"
    and nocalls: "calls (exampleEngine False) = []"
    by (simp_all add: exampleEngine_def zeroInitialized_def MAX_DATA_BYTES_def)
  have lo: "(0x7F :: byte) < 128" and hi: "(0x01 :: byte) < 128"
    by simp_all
  have v: "uint (0x7F :: byte) OR push_bit 7 (uint (0x01 :: byte)) = 255"
    by simp
  show ?thesis
    by (simp only: pin_value_message_complete [OF p lo hi l] v, simp add: cb nocalls)
qed

text \<open>
  Claim C8, as the code has it. While an argument byte is awaited outside a sysex
  message, a data byte below 128 is stored in the buffer at index
  \<open>waitForData - 1\<close> and the count goes down by one; when that makes the count zero
  with a command pending, the command's handler runs on the buffer so filled (first
  conjunct). For a whole digital message, command byte then low seven bits then high
  seven bits, the buffer ends with the high bits at index 0 and the low bits at index
  1, and the digital handler, when attached, is called with the channel and
  \<open>(storedInputData[0] << 7) + storedInputData[1]\<close>, which is
  \<open>low7 | (high7 << 7)\<close> (second conjunct). The digital message is the only two-byte
  message whose value the parser reconstructs. An analog write is repacked with its
  two bytes as they arrived and handed to the sysex dispatch (third conjunct); a
  set-pin-mode message calls \<open>setPinMode\<close> with the first byte as the pin and the second
  as the mode (fourth conjunct); a set-digital-pin-value message calls its handler,
  when attached, with the first byte as the pin and the second as the value (fifth
  conjunct).
\<close>

theorem argument_bytes_back_to_front:
  "(inputData < 128 \<and> \<not> parsingSysex s \<and> 0 < waitForData s
      \<and> unat (waitForData s) \<le> length (storedInputData s) \<longrightarrow>
    parse large_mem inputData s =
      (let s1 = s\<lparr>waitForData := waitForData s - 1,
                   storedInputData := (storedInputData s)[unat (waitForData s) - 1 := inputData]\<rparr>
       in if waitForData s1 = 0 \<and> executeMultiByteCommand s1 \<noteq> 0
          then andThen (executeCommand s1) (\<lambda>s. Inr (s\<lparr>executeMultiByteCommand := 0\<rparr>))
          else Inr s1))
   \<and> (commandOf command = DIGITAL_MESSAGE \<and> \<not> parsingSysex t \<and> low7 < 128 \<and> high7 < 128
         \<and> 2 \<le> length (storedInputData t) \<longrightarrow>
       (\<exists>t'. forEach [command, low7, high7] (parse large_mem) t = Inr t'
          \<and> storedInputData t' = (storedInputData t)[1 := low7, 0 := high7]
          \<and> storedInputData t' ! 0 = high7 \<and> storedInputData t' ! 1 = low7
          \<and> waitForData t' = 0 \<and> executeMultiByteCommand t' = 0
          \<and> calls t' = calls t @
               (if currentDigitalCallback t
                then [DigitalCallback (command AND 0x0F)
                        (push_bit 7 (uint (storedInputData t' ! 0)) + uint (storedInputData t' ! 1))]
                else [])
          \<and> push_bit 7 (uint (storedInputData t' ! 0)) + uint (storedInputData t' ! 1)
               = uint low7 OR push_bit 7 (uint high7)))
   \<and> (commandOf command = ANALOG_MESSAGE \<and> \<not> parsingSysex t \<and> low7 < 128 \<and> high7 < 128
         \<and> 5 \<le> length (storedInputData t) \<longrightarrow>
       forEach [command, low7, high7] (parse large_mem) t =
         Inr (t\<lparr>multiByteChannel := command AND 0x0F, waitForData := 0,
               executeMultiByteCommand := 0,
               storedInputData :=
                 [EXTENDED_ANALOG, command AND 0x0F, low7, high7, END_SYSEX]
                   @ drop 5 (storedInputData t),
               sysexBytesRead := 4,
               calls := calls t @
                 (if currentSysexCallback t
                  then [SysexCallback EXTENDED_ANALOG 3 [command AND 0x0F, low7, high7]]
                  else [])\<rparr>))
   \<and> (\<not> parsingSysex t \<and> pin < 128 \<and> arg < 128 \<and> 2 \<le> length (storedInputData t) \<longrightarrow>
       forEach [SET_PIN_MODE, pin, arg] (parse large_mem) t =
         andThen
           (setPinMode pin arg
              (t\<lparr>executeMultiByteCommand := SET_PIN_MODE, waitForData := 0,
                 storedInputData := (storedInputData t)[1 := pin, 0 := arg]\<rparr>))
           (\<lambda>s. Inr (s\<lparr>executeMultiByteCommand := 0\<rparr>)))
   \<and> (\<not> parsingSysex t \<and> pin < 128 \<and> arg < 128 \<and> 2 \<le> length (storedInputData t) \<longrightarrow>
       forEach [SET_DIGITAL_PIN_VALUE, pin, arg] (parse large_mem) t =
         Inr (t\<lparr>waitForData := 0, executeMultiByteCommand := 0,
               storedInputData := (storedInputData t)[1 := pin, 0 := arg],
               calls := calls t @
                 (if currentPinValueCallback t then [PinValueCallback pin (uint arg)]
                  else [])\<rparr>))"
proof (intro conjI impI)
  assume "inputData < 128 \<and> \<not> parsingSysex s \<and> 0 < waitForData s
      \<and> unat (waitForData s) \<le> length (storedInputData s)"
  then show "parse large_mem inputData s =
      (let s1 = s\<lparr>waitForData := waitForData s - 1,
                   storedInputData := (storedInputData s)[unat (waitForData s) - 1 := inputData]\<rparr>
       in if waitForData s1 = 0 \<and> executeMultiByteCommand s1 \<noteq> 0
          then andThen (executeCommand s1) (\<lambda>s. Inr (s\<lparr>executeMultiByteCommand := 0\<rparr>))
          else Inr s1)"
    using parse_argument_general [of inputData s large_mem] by blast
next
  assume "commandOf command = DIGITAL_MESSAGE \<and> \<not> parsingSysex t \<and> low7 < 128 \<and> high7 < 128
         \<and> 2 \<le> length (storedInputData t)"
  then have a: "commandOf command = DIGITAL_MESSAGE" "\<not> parsingSysex t" "low7 < 128"
      "high7 < 128" "2 \<le> length (storedInputData t)"
    by simp_all
  from a(5) have ne: "storedInputData t \<noteq> []" and one: "1 < length (storedInputData t)"
    by auto
  from ne one have nth: "(storedInputData t)[1 := low7, 0 := high7] ! 0 = high7"
      "(storedInputData t)[1 := low7, 0 := high7] ! 1 = low7"
    by (simp_all add: nth_list_update)
  show "\<exists>t'. forEach [command, low7, high7] (parse large_mem) t = Inr t'
          \<and> storedInputData t' = (storedInputData t)[1 := low7, 0 := high7]
          \<and> storedInputData t' ! 0 = high7 \<and> storedInputData t' ! 1 = low7
          \<and> waitForData t' = 0 \<and> executeMultiByteCommand t' = 0
          \<and> calls t' = calls t @
               (if currentDigitalCallback t
                then [DigitalCallback (command AND 0x0F)
                        (push_bit 7 (uint (storedInputData t' ! 0)) + uint (storedInputData t' ! 1))]
                else [])
          \<and> push_bit 7 (uint (storedInputData t' ! 0)) + uint (storedInputData t' ! 1)
               = uint low7 OR push_bit 7 (uint high7)"
    using nth low_or_high [OF a(3), of high7]
    by (simp only: digital_message_complete [OF a], simp)
next
  assume "commandOf command = ANALOG_MESSAGE \<and> \<not> parsingSysex t \<and> low7 < 128 \<and> high7 < 128
         \<and> 5 \<le> length (storedInputData t)"
  then have a: "commandOf command = ANALOG_MESSAGE" "\<not> parsingSysex t" "low7 < 128"
      "high7 < 128" "5 \<le> length (storedInputData t)"
    by simp_all
  show "forEach [command, low7, high7] (parse large_mem) t =
         Inr (t\<lparr>multiByteChannel := command AND 0x0F, waitForData := 0,
               executeMultiByteCommand := 0,
               storedInputData :=
                 [EXTENDED_ANALOG, command AND 0x0F, low7, high7, END_SYSEX]
                   @ drop 5 (storedInputData t),
               sysexBytesRead := 4,
               calls := calls t @
                 (if currentSysexCallback t
                  then [SysexCallback EXTENDED_ANALOG 3 [command AND 0x0F, low7, high7]]
                  else [])\<rparr>)"
    by (rule analog_message_complete [OF a])
next
  assume "\<not> parsingSysex t \<and> pin < 128 \<and> arg < 128 \<and> 2 \<le> length (storedInputData t)"
  then have a: "\<not> parsingSysex t" "pin < 128" "arg < 128" "2 \<le> length (storedInputData t)"
    by simp_all
  show "forEach [SET_PIN_MODE, pin, arg] (parse large_mem) t =
         andThen
           (setPinMode pin arg
              (t\<lparr>executeMultiByteCommand := SET_PIN_MODE, waitForData := 0,
                 storedInputData := (storedInputData t)[1 := pin, 0 := arg]\<rparr>))
           (\<lambda>s. Inr (s\<lparr>executeMultiByteCommand := 0\<rparr>))"
    by (rule pin_mode_message_complete [OF a])
next
  assume "\<not> parsingSysex t \<and> pin < 128 \<and> arg < 128 \<and> 2 \<le> length (storedInputData t)"
  then have a: "\<not> parsingSysex t" "pin < 128" "arg < 128" "2 \<le> length (storedInputData t)"
    by simp_all
  show "forEach [SET_DIGITAL_PIN_VALUE, pin, arg] (parse large_mem) t =
         Inr (t\<lparr>waitForData := 0, executeMultiByteCommand := 0,
               storedInputData := (storedInputData t)[1 := pin, 0 := arg],
               calls := calls t @
                 (if currentPinValueCallback t then [PinValueCallback pin (uint arg)]
                  else [])\<rparr>)"
    by (rule pin_value_message_complete [OF a])
qed

theorem argument_bytes_back_to_front_witness:
  "commandOf 0x91 = DIGITAL_MESSAGE \<and> commandOf 0xE0 = ANALOG_MESSAGE
   \<and> \<not> parsingSysex (exampleEngine False)
   \<and> (0x7F :: byte) < 128 \<and> (0x01 :: byte) < 128 \<and> (0x03 :: byte) < 128
   \<and> 5 \<le> length (storedInputData (exampleEngine False))
   \<and> (\<exists>s'. forEach [0x91, 0x7F, 0x01] (parse False) (exampleEngine False) = Inr s'
          \<and> take 2 (storedInputData s') = [0x01, 0x7F]
          \<and> calls s' = [DigitalCallback 1 255])
   \<and> (\<exists>s'. parse False 0x91 (exampleEngine False) = Inr s' \<and> waitForData s' = 2
          \<and> parse False 0x7F s' = Inr (s'\<lparr>waitForData := 1,
                storedInputData := (storedInputData s')[1 := 0x7F]\<rparr>))
   \<and> map_sum id calls (forEach [0xE0, 0x7F, 0x01] (parse False) (exampleEngine False))
        = Inr [SysexCallback EXTENDED_ANALOG 3 [0, 0x7F, 0x01]]
   \<and> map_sum id (\<lambda>s'. (calls s', pinConfig s' ! 3))
        (forEach [SET_PIN_MODE, 0x03, 0x01] (parse False) (exampleEngine False))
        = Inr ([PinModeCallback 3 1], 1)
   \<and> map_sum id calls
        (forEach [SET_DIGITAL_PIN_VALUE, 0x03, 0x01] (parse False) (exampleEngine False))
        = Inr [PinValueCallback 3 1]"
proof -
  let ?e = "exampleEngine False"
  let ?s1 = "?e\<lparr>multiByteChannel := 1, waitForData := 2, executeMultiByteCommand := DIGITAL_MESSAGE\<rparr>"
  have c: "commandOf 0x91 = DIGITAL_MESSAGE"
    by (simp add: commandOf_def DIGITAL_MESSAGE_def)
  have ca: "commandOf 0xE0 = ANALOG_MESSAGE"
    by (simp add: commandOf_def ANALOG_MESSAGE_def)
  have p: "\<not> parsingSysex ?e" and l: "2 \<le> length (storedInputData ?e)"
    and l5: "5 \<le> length (storedInputData ?e)"
    and cb: "currentDigitalCallback ?e" "currentSysexCallback ?e" "currentPinValueCallback ?e"
    and nocalls: "calls ?e = []"
    by (simp_all add: exampleEngine_def zeroInitialized_def MAX_DATA_BYTES_def)
  have lo: "(0x7F :: byte) < 128" and hi: "(0x01 :: byte) < 128" and pn: "(0x03 :: byte) < 128"
    by simp_all
  have buf: "take 2 ((storedInputData ?e)[1 := 0x7F, 0 := 0x01]) = [0x01, 0x7F]"
    by (simp add: exampleEngine_def zeroInitialized_def MAX_DATA_BYTES_def numeral_eq_Suc)
  have first: "parse False 0x91 ?e = Inr ?s1"
    using parse_DIGITAL_MESSAGE [OF c p, of False] by simp
  have "0x7F < (128 :: byte) \<and> \<not> parsingSysex ?s1 \<and> 0 < waitForData ?s1
           \<and> unat (waitForData ?s1) \<le> length (storedInputData ?s1)"
    using p l by simp
  from argument_bytes_back_to_front [where inputData = "0x7F" and s = ?s1 and large_mem = False,
      THEN conjunct1, THEN mp, OF this]
  have second: "parse False 0x7F ?s1 =
      Inr (?s1\<lparr>waitForData := 1, storedInputData := (storedInputData ?s1)[1 := 0x7F]\<rparr>)"
    by (simp add: Let_def)
  have "commandOf 0x91 = DIGITAL_MESSAGE \<and> \<not> parsingSysex ?e \<and> (0x7F :: byte) < 128
      \<and> (0x01 :: byte) < 128 \<and> 2 \<le> length (storedInputData ?e)"
    using c p lo hi l by blast
  from argument_bytes_back_to_front [where command = "0x91" and t = ?e and ?low7.0 = "0x7F"
      and ?high7.0 = "0x01" and large_mem = False, THEN conjunct2, THEN conjunct1, THEN mp, OF this]
  obtain s' where s': "forEach [0x91, 0x7F, 0x01] (parse False) ?e = Inr s'"
    "storedInputData s' = (storedInputData ?e)[1 := 0x7F, 0 := 0x01]"
    "calls s' = calls ?e @
                 (if currentDigitalCallback ?e
                  then [DigitalCallback (0x91 AND 0x0F)
                          (push_bit 7 (uint (storedInputData s' ! 0)) + uint (storedInputData s' ! 1))]
                  else [])"
    "push_bit 7 (uint (storedInputData s' ! 0)) + uint (storedInputData s' ! 1)
                 = uint (0x7F :: byte) OR push_bit 7 (uint (0x01 :: byte))"
    by blast
  from s'(3,4) cb nocalls have "calls s' = [DigitalCallback 1 255]"
    by simp
  with s'(1,2) buf have digital: "\<exists>s'. forEach [0x91, 0x7F, 0x01] (parse False) ?e = Inr s'
          \<and> take 2 (storedInputData s') = [0x01, 0x7F]
          \<and> calls s' = [DigitalCallback 1 255]"
    by simp
  from first second have store: "\<exists>s'. parse False 0x91 ?e = Inr s' \<and> waitForData s' = 2
          \<and> parse False 0x7F s' = Inr (s'\<lparr>waitForData := 1,
                storedInputData := (storedInputData s')[1 := 0x7F]\<rparr>)"
    by simp
  have "commandOf 0xE0 = ANALOG_MESSAGE \<and> \<not> parsingSysex ?e \<and> (0x7F :: byte) < 128
      \<and> (0x01 :: byte) < 128 \<and> 5 \<le> length (storedInputData ?e)"
    using ca p lo hi l5 by blast
  note an = argument_bytes_back_to_front [where command = "0xE0" and t = ?e and ?low7.0 = "0x7F"
      and ?high7.0 = "0x01" and large_mem = False,
      THEN conjunct2, THEN conjunct2, THEN conjunct1, THEN mp, OF this]
  have analog: "map_sum id calls (forEach [0xE0, 0x7F, 0x01] (parse False) ?e)
        = Inr [SysexCallback EXTENDED_ANALOG 3 [0, 0x7F, 0x01]]"
    by (simp only: an, simp add: cb nocalls)
  have pre: "\<not> parsingSysex ?e \<and> (0x03 :: byte) < 128 \<and> (0x01 :: byte) < 128
      \<and> 2 \<le> length (storedInputData ?e)"
    using p pn hi l by blast
  note pm = argument_bytes_back_to_front [where pin = "0x03" and arg = "0x01" and t = ?e
      and large_mem = False,
      THEN conjunct2, THEN conjunct2, THEN conjunct2, THEN conjunct1, THEN mp, OF pre]
  have pmv: "map_sum id (\<lambda>s'. (calls s', pinConfig s' ! 3))
       (andThen
           (setPinMode 0x03 0x01
              (?e\<lparr>executeMultiByteCommand := SET_PIN_MODE, waitForData := 0,
                 storedInputData := (storedInputData ?e)[1 := 0x03, 0 := 0x01]\<rparr>))
           (\<lambda>s. Inr (s\<lparr>executeMultiByteCommand := 0\<rparr>)))
        = Inr ([PinModeCallback 3 1], 1)"
    by code_simp
  have mode: "map_sum id (\<lambda>s'. (calls s', pinConfig s' ! 3))
        (forEach [SET_PIN_MODE, 0x03, 0x01] (parse False) ?e)
        = Inr ([PinModeCallback 3 1], 1)"
    by (simp only: pm pmv)
  note pv = argument_bytes_back_to_front [where pin = "0x03" and arg = "0x01" and t = ?e
      and large_mem = False,
      THEN conjunct2, THEN conjunct2, THEN conjunct2, THEN conjunct2, THEN mp, OF pre]
  have val: "map_sum id calls (forEach [SET_DIGITAL_PIN_VALUE, 0x03, 0x01] (parse False) ?e)
        = Inr [PinValueCallback 3 1]"
    by (simp only: pv, simp add: cb nocalls)
  from c ca p lo hi pn l5 digital store analog mode val show ?thesis
    by blast
qed

text \<open>
  The analog write of value 255 on channel 0: the low seven bits \<^verbatim>\<open>0x7F\<close> come
  third in the buffer and the high bits \<^verbatim>\<open>0x01\<close> fourth, not the other way round.
\<close>

theorem analog_write_layout_counterexample:
  "map_sum id (take 4 \<circ> storedInputData)
      (forEach [0xE0, 0x7F, 0x01] (parse False) (exampleEngine False))
     = Inr [EXTENDED_ANALOG, 0x00, 0x7F, 0x01]
   \<and> map_sum id (take 4 \<circ> storedInputData)
      (forEach [0xE0, 0x7F, 0x01] (parse False) (exampleEngine False))
     \<noteq> Inr [EXTENDED_ANALOG, 0x00, 0x01, 0x7F]"
proof -
  have c: "commandOf 0xE0 = ANALOG_MESSAGE"
    by (simp add: commandOf_def ANALOG_MESSAGE_def)
  have p: "\<not> parsingSysex (exampleEngine False)"
    and l: "5 \<le> length (storedInputData (exampleEngine False))"
    by (simp_all add: exampleEngine_def zeroInitialized_def MAX_DATA_BYTES_def)
  have lo: "(0x7F :: byte) < 128" and hi: "(0x01 :: byte) < 128"
    by simp_all
  show ?thesis
    by (simp only: analog_message_complete [OF c p lo hi l], simp)
qed

text \<open>
  Claim C6, as the code has it. A completed analog-write message is repacked in the
  buffer as \<open>[EXTENDED_ANALOG, channel, low seven bits, high seven bits, END_SYSEX]\<close>
  with a byte count of 4 and goes through the sysex dispatch: the generic sysex
  handler, when attached, is called with the command \<^verbatim>\<open>EXTENDED_ANALOG\<close>, the count
  3 and the bytes \<open>[channel, low, high]\<close>; the two value bytes decode with
  \<open>decodePackedUInt14\<close> to \<open>low | (high << 7)\<close>.
\<close>

theorem analog_write_repacked:
  "commandOf command = ANALOG_MESSAGE \<and> \<not> parsingSysex s \<and> low7 < 128 \<and> high7 < 128
     \<and> 5 \<le> length (storedInputData s) \<longrightarrow>
   (\<exists>s'. forEach [command, low7, high7] (parse large_mem) s = Inr s'
      \<and> take 5 (storedInputData s')
           = [EXTENDED_ANALOG, command AND 0x0F, low7, high7, END_SYSEX]
      \<and> sysexBytesRead s' = 4 \<and> waitForData s' = 0 \<and> executeMultiByteCommand s' = 0
      \<and> calls s' = calls s @
           (if currentSysexCallback s
            then [SysexCallback EXTENDED_ANALOG 3 [command AND 0x0F, low7, high7]]
            else [])
      \<and> map_option uint (decodePackedUInt14 [low7, high7])
           = Some (uint low7 OR push_bit 7 (uint high7)))"
proof
  assume "commandOf command = ANALOG_MESSAGE \<and> \<not> parsingSysex s \<and> low7 < 128 \<and> high7 < 128
     \<and> 5 \<le> length (storedInputData s)"
  then have a: "commandOf command = ANALOG_MESSAGE" "\<not> parsingSysex s" "low7 < 128"
      "high7 < 128" "5 \<le> length (storedInputData s)"
    by simp_all
  show "\<exists>s'. forEach [command, low7, high7] (parse large_mem) s = Inr s'
      \<and> take 5 (storedInputData s')
           = [EXTENDED_ANALOG, command AND 0x0F, low7, high7, END_SYSEX]
      \<and> sysexBytesRead s' = 4 \<and> waitForData s' = 0 \<and> executeMultiByteCommand s' = 0
      \<and> calls s' = calls s @
           (if currentSysexCallback s
            then [SysexCallback EXTENDED_ANALOG 3 [command AND 0x0F, low7, high7]]
            else [])
      \<and> map_option uint (decodePackedUInt14 [low7, high7])
           = Some (uint low7 OR push_bit 7 (uint high7))"
    using decodePackedUInt14_pair [of low7 high7]
    by (simp only: analog_message_complete [OF a], simp)
qed

theorem analog_write_repacked_witness:
  "commandOf 0xE0 = ANALOG_MESSAGE \<and> \<not> parsingSysex (exampleEngine False)
   \<and> (0x7F :: byte) < 128 \<and> (0x01 :: byte) < 128
   \<and> 5 \<le> length (storedInputData (exampleEngine False))
   \<and> (\<exists>s'. forEach [0xE0, 0x7F, 0x01] (parse False) (exampleEngine False) = Inr s'
          \<and> take 5 (storedInputData s') = [0x6F, 0x00, 0x7F, 0x01, 0xF7]
          \<and> calls s' = [SysexCallback 0x6F 3 [0x00, 0x7F, 0x01]])
   \<and> map_option uint (decodePackedUInt14 [0x7F, 0x01]) = Some 255"
proof -
  let ?e = "exampleEngine False"
  have c: "commandOf 0xE0 = ANALOG_MESSAGE"
    by (simp add: commandOf_def ANALOG_MESSAGE_def)
  have p: "\<not> parsingSysex ?e" and l: "5 \<le> length (storedInputData ?e)"
    and cb: "currentSysexCallback ?e" and nocalls: "calls ?e = []"
    by (simp_all add: exampleEngine_def zeroInitialized_def MAX_DATA_BYTES_def)
  have lo: "(0x7F :: byte) < 128" and hi: "(0x01 :: byte) < 128"
    by simp_all
  from analog_write_repacked [where command = "0xE0" and s = ?e and ?low7.0 = "0x7F"
      and ?high7.0 = "0x01" and large_mem = False] c p lo hi l
  obtain s' where s': "forEach [0xE0, 0x7F, 0x01] (parse False) ?e = Inr s'"
    "take 5 (storedInputData s') = [EXTENDED_ANALOG, 0xE0 AND 0x0F, 0x7F, 0x01, END_SYSEX]"
    "calls s' = calls ?e @
           (if currentSysexCallback ?e
            then [SysexCallback EXTENDED_ANALOG 3 [0xE0 AND 0x0F, 0x7F, 0x01]]
            else [])"
    "map_option uint (decodePackedUInt14 [0x7F, 0x01])
           = Some (uint (0x7F :: byte) OR push_bit 7 (uint (0x01 :: byte)))"
    by blast
  from s'(2,3,4) cb nocalls
  have "take 5 (storedInputData s') = [0x6F, 0x00, 0x7F, 0x01, 0xF7]"
    "calls s' = [SysexCallback 0x6F 3 [0x00, 0x7F, 0x01]]"
    "map_option uint (decodePackedUInt14 [0x7F, 0x01]) = Some 255"
    by (simp_all add: command_defs)
  with s'(1) c p lo hi l show ?thesis
    by blast
qed

section \<open>What the output and dispatch routines leave alone\<close>

declare decodeString.simps [simp del] bulkCopy.simps [simp del]

lemma ensures_Inr [simp]: "ensures (Inr x) E Q = Q x"
  by (simp add: ensures_def)

lemma ensures_Inl [simp]: "ensures (Inl e) E Q = E e"
  by (simp add: ensures_def)

lemma ensures_andThen:
  assumes "ensures r E P" and "\<And>x. P x \<Longrightarrow> ensures (f x) E Q"
  shows "ensures (andThen r f) E Q"
  using assms by (cases r) simp_all

lemma ensures_weaken:
  assumes "ensures r E P" and "\<And>e. E e \<Longrightarrow> E' e" and "\<And>x. P x \<Longrightarrow> Q x"
  shows "ensures r E' Q"
  using assms by (cases r) simp_all

lemma ensures_forEach:
  assumes "\<And>x s. I s \<Longrightarrow> ensures (f x s) E I" and "I s"
  shows "ensures (forEach xs f s) E I"
  using assms(2)
proof (induction xs arbitrary: s)
  case Nil
  then show ?case by simp
next
  case (Cons x xs)
  show ?case
    unfolding forEach.simps
    by (rule ensures_andThen [where P = I]) (simp_all add: assms(1) Cons)
qed

lemma ensures_if:
  assumes "b \<Longrightarrow> ensures r E Q" and "\<not> b \<Longrightarrow> ensures r' E Q"
  shows "ensures (if b then r else r') E Q"
  using assms by simp

lemma write_byte_control:
  "control s = c \<Longrightarrow> ensures (write_byte b s) notBuffer (\<lambda>s'. control s' = c)"
  by (auto simp add: write_byte_def control_def notBuffer_def)

lemmas control_step = ensures_andThen [where P = "\<lambda>s'. control s' = c" and Q = "\<lambda>s'. control s' = c" for c]

lemma sendValueAsTwo7bitBytes_control:
  "control s = c \<Longrightarrow> ensures (sendValueAsTwo7bitBytes v s) notBuffer (\<lambda>s'. control s' = c)"
  unfolding sendValueAsTwo7bitBytes_def
  by (intro control_step write_byte_control)

lemma startSysex_control:
  "control s = c \<Longrightarrow> ensures (startSysex s) notBuffer (\<lambda>s'. control s' = c)"
  unfolding startSysex_def by (rule write_byte_control)

lemma endSysex_control:
  "control s = c \<Longrightarrow> ensures (endSysex s) notBuffer (\<lambda>s'. control s' = c)"
  unfolding endSysex_def by (rule write_byte_control)

lemma sendEach_control:
  "control s = c \<Longrightarrow>
     ensures (forEach str (\<lambda>ch. sendValueAsTwo7bitBytes (uint ch)) s) notBuffer
       (\<lambda>s'. control s' = c)"
  by (rule ensures_forEach [where I = "\<lambda>s'. control s' = c"])
     (simp_all add: sendValueAsTwo7bitBytes_control)

lemma sendName_control:
  "control s = c \<Longrightarrow>
     ensures (forEach name sendValueAsTwo7bitBytes s) notBuffer (\<lambda>s'. control s' = c)"
  by (rule ensures_forEach [where I = "\<lambda>s'. control s' = c"])
     (simp_all add: sendValueAsTwo7bitBytes_control)

lemma printVersion_control:
  "control s = c \<Longrightarrow> ensures (printVersion s) notBuffer (\<lambda>s'. control s' = c)"
  unfolding printVersion_def
  by (intro control_step write_byte_control)

lemma printFirmwareVersion_control:
  "control s = c \<Longrightarrow> ensures (printFirmwareVersion s) notBuffer (\<lambda>s'. control s' = c)"
  unfolding printFirmwareVersion_def
  by (intro ensures_if control_step write_byte_control startSysex_control endSysex_control
        sendName_control) simp_all

lemma sendString_control:
  "control s = c \<Longrightarrow> ensures (sendString str s) notBuffer (\<lambda>s'. control s' = c)"
  unfolding sendString_def Let_def
  by (intro control_step write_byte_control startSysex_control endSysex_control
        sendEach_control) (simp add: control_def)

lemma loadAt_any: "ensures (loadAt i s) anyFault (\<lambda>v. True)"
  by (simp add: ensures_def anyFault_def split: sum.splits)

lemma storeAt_control:
  "control s = c \<Longrightarrow> ensures (storeAt i v s) anyFault (\<lambda>s'. control s' = c)"
  by (auto simp add: storeAt_def control_def anyFault_def)

lemma decodeString_control:
  "control s = c \<Longrightarrow>
     ensures (decodeString bufferLength i j s) anyFault (\<lambda>r. control (snd r) = c)"
proof (induction bufferLength i j s rule: decodeString.induct)
  case (1 bufferLength i j s)
  show ?case
  proof (cases "j < bufferLength")
    case True
    show ?thesis
      apply (subst decodeString.simps)
      apply (simp only: True if_True)
      apply (rule ensures_andThen [OF loadAt_any])
      apply (rule ensures_andThen [OF storeAt_control [OF "1.prems"]])
      apply (rule ensures_andThen [OF loadAt_any])
      apply (rule ensures_andThen [OF loadAt_any])
      apply (rule ensures_andThen [OF storeAt_control])
       apply assumption
      apply (rule "1.IH" [OF True])
      apply assumption
      done
  next
    case False
    with "1.prems" show ?thesis
      by (subst decodeString.simps) simp
  qed
qed

lemma ensures_anyFault:
  "ensures r E Q \<Longrightarrow> ensures r anyFault Q"
  by (rule ensures_weaken [where E = E and P = Q]) (simp_all add: anyFault_def)

lemma processSysexMessage_control:
  assumes "control s = c"
  shows "ensures (processSysexMessage s) anyFault (\<lambda>s'. control s' = c)"
proof -
  have string: "ensures
     (andThen (decodeString bufferLength 1 0 s) (\<lambda>(j, s).
        andThen (loadAt (uint (j - 1)) s) (\<lambda>ch.
        andThen (if ch \<noteq> 0 then storeAt (uint j) 0 s else Inr s) (\<lambda>s.
        Inr (s\<lparr>calls := calls s @
              [StringCallback (takeWhile (\<lambda>c. c \<noteq> 0) (storedInputData s))]\<rparr>)))))
     anyFault (\<lambda>s'. control s' = c)" for bufferLength
    apply (rule ensures_andThen [OF decodeString_control [OF assms]])
    apply (simp only: split_beta)
    apply (rule ensures_andThen [OF loadAt_any])
    apply (rule ensures_andThen [where P = "\<lambda>s'. control s' = c"])
     apply (rule ensures_if)
      apply (erule storeAt_control)
     apply simp
    apply (simp add: control_def)
    done
  show ?thesis
    unfolding processSysexMessage_def Let_def
    apply (rule ensures_andThen [OF loadAt_any])
    apply (intro ensures_if)
        apply (rule ensures_anyFault [OF printFirmwareVersion_control [OF assms]])
       apply (simp add: assms)
      apply (rule string)
     apply (simp add: assms)
    using assms apply (simp add: control_def)
    using assms apply simp
    done
qed

lemma control_pinIgnored:
  "control s' = control s \<Longrightarrow> pinIgnored p s \<Longrightarrow> pinIgnored p s'"
  by (simp add: control_def pinIgnored_def)

lemma setPinMode_pinIgnored:
  assumes "pinIgnored p s"
  shows "ensures (setPinMode pin config s) anyFault (pinIgnored p)"
  using assms
  by (auto simp add: setPinMode_def pinIgnored_def anyFault_def Let_def nth_list_update)


lemma zero_fill_control:
  "control s = c \<Longrightarrow>
     ensures (forEach xs (\<lambda>i. storeAt (int i) 0) s) anyFault (\<lambda>s'. control s' = c)"
  by (rule ensures_forEach [where I = "\<lambda>s'. control s' = c"])
     (simp_all add: storeAt_control)

lemma systemReset_pinIgnored:
  assumes "pinIgnored p s"
  shows "ensures (systemReset large_mem s) anyFault (pinIgnored p)"
  unfolding systemReset_def Let_def
  apply (rule ensures_andThen [OF zero_fill_control [OF refl]])
  using assms apply (simp add: control_def pinIgnored_def)
  done

lemma storeAt_pinIgnored:
  "pinIgnored p s \<Longrightarrow> ensures (storeAt i v s) anyFault (pinIgnored p)"
  by (rule ensures_weaken [OF storeAt_control [OF refl]]) (simp_all add: control_pinIgnored)

lemma executeCommand_pinIgnored:
  assumes "pinIgnored p s"
  shows "ensures (executeCommand s) anyFault (pinIgnored p)"
proof -
  have analog: "ensures
        (andThen (storeAt 0 EXTENDED_ANALOG s) (\<lambda>s.
        andThen (storeAt 1 (multiByteChannel s) s) (\<lambda>s.
        andThen (storeAt 2 b1 s) (\<lambda>s.
        andThen (storeAt 3 b0 s) (\<lambda>s.
        andThen (storeAt 4 END_SYSEX s) (\<lambda>s.
        processSysexMessage (s\<lparr>sysexBytesRead := 4\<rparr>)))))))
        anyFault (pinIgnored p)" for b0 b1
    apply (intro ensures_andThen [where P = "pinIgnored p"] storeAt_pinIgnored assms)
        apply assumption+
    apply (rule ensures_weaken [OF processSysexMessage_control [OF refl]])
     apply assumption
    apply (simp add: control_def pinIgnored_def)
    done
  have call: "pinIgnored p (s\<lparr>calls := cs\<rparr>)" for cs
    using assms by (simp add: pinIgnored_def)
  show ?thesis
    unfolding executeCommand_def
    apply (intro ensures_if ensures_andThen [OF loadAt_any])
               apply (rule analog)
              apply (simp_all add: call assms setPinMode_pinIgnored)
    done
qed


lemma printVersion_pinIgnored:
  "pinIgnored p s \<Longrightarrow> ensures (printVersion s) anyFault (pinIgnored p)"
  by (rule ensures_weaken [OF printVersion_control [OF refl]])
     (simp_all add: control_pinIgnored anyFault_def)

lemma sendString_pinIgnored:
  "pinIgnored p s \<Longrightarrow> ensures (sendString str s) anyFault (pinIgnored p)"
  by (rule ensures_weaken [OF sendString_control [OF refl]])
     (simp_all add: control_pinIgnored anyFault_def)

lemma processSysexMessage_pinIgnored:
  "pinIgnored p s \<Longrightarrow> ensures (processSysexMessage s) anyFault (pinIgnored p)"
  by (rule ensures_weaken [OF processSysexMessage_control [OF refl]])
     (simp_all add: control_pinIgnored)

lemma startCommand_pinIgnored:
  assumes "pinIgnored p s"
  shows "ensures (startCommand large_mem command s) anyFault (pinIgnored p)"
proof -
  have "pinIgnored p (s\<lparr>waitForData := w, executeMultiByteCommand := c\<rparr>)" for w c
    using assms by (simp add: pinIgnored_def)
  moreover have "pinIgnored p (s\<lparr>parsingSysex := True, sysexBytesRead := 0\<rparr>)"
    using assms by (simp add: pinIgnored_def)
  ultimately show ?thesis
    unfolding startCommand_def
    by (intro ensures_if) (simp_all add: assms systemReset_pinIgnored printVersion_pinIgnored)
qed

lemma parse_pinIgnored:
  assumes "pinIgnored p s"
  shows "ensures (parse large_mem inputData s) anyFault (pinIgnored p)"
proof -
  have upd: "pinIgnored p (s\<lparr>parsingSysex := a, sysexBytesRead := b, waitForData := c\<rparr>)"
    "pinIgnored p (s\<lparr>parsingSysex := a\<rparr>)" "pinIgnored p (s\<lparr>waitForData := c\<rparr>)"
    "pinIgnored p (s\<lparr>multiByteChannel := d\<rparr>)" for a b c d
    using assms by (simp_all add: pinIgnored_def)
  have sysex: "ensures
     (andThen (storeAt (sysexBytesRead s) inputData s) (\<lambda>s.
             let s = s\<lparr>sysexBytesRead := sysexBytesRead s + 1\<rparr>
             in if sysexBytesRead s = int (MAX_DATA_BYTES large_mem) then
                  andThen (sendString discardingMessage s) (\<lambda>s.
                  Inr (s\<lparr>parsingSysex := False, sysexBytesRead := 0, waitForData := 0\<rparr>))
                else Inr s)) anyFault (pinIgnored p)"
    apply (rule ensures_andThen [OF storeAt_pinIgnored [OF assms]])
    apply (simp only: Let_def)
    apply (rule ensures_if)
     apply (rule ensures_andThen [where P = "pinIgnored p"])
      apply (rule sendString_pinIgnored)
      apply (simp add: pinIgnored_def)
     apply (simp add: pinIgnored_def)
    apply (simp add: pinIgnored_def)
    done
  have fixed: "ensures
     (let s = s\<lparr>waitForData := waitForData s - 1\<rparr>
         in andThen (storeAt (uint (waitForData s)) inputData s) (\<lambda>s.
              if waitForData s = 0 \<and> executeMultiByteCommand s \<noteq> 0 then
                andThen (executeCommand s) (\<lambda>s.
                Inr (s\<lparr>executeMultiByteCommand := 0\<rparr>))
              else Inr s)) anyFault (pinIgnored p)"
    apply (simp only: Let_def)
    apply (rule ensures_andThen [OF storeAt_pinIgnored [OF upd(3)]])
    apply (rule ensures_if)
     apply (rule ensures_andThen [where P = "pinIgnored p"])
      apply (erule executeCommand_pinIgnored)
     apply (simp add: pinIgnored_def)
    apply simp
    done
  show ?thesis
    unfolding parse_def
    by (intro ensures_if sysex fixed systemReset_pinIgnored processSysexMessage_pinIgnored
          startCommand_pinIgnored upd assms)
qed

lemma parse_all_pinIgnored:
  "pinIgnored p s \<Longrightarrow> ensures (forEach bytes (parse large_mem) s) anyFault (pinIgnored p)"
  by (rule ensures_forEach [where I = "pinIgnored p"]) (simp_all add: parse_pinIgnored)

lemma bulkCopy_pinIgnored:
  "pinIgnored p s \<Longrightarrow>
     ensures (bulkCopy readCache readCachePos s) anyFault (\<lambda>r. pinIgnored p (snd r))"
proof (induction readCache readCachePos s rule: bulkCopy.induct)
  case (1 readCache readCachePos s)
  show ?case
  proof (cases "parsingSysex s \<and> length readCache > readCachePos + 4")
    case True
    show ?thesis
      apply (subst bulkCopy.simps)
      apply (simp only: True if_True simp_thms Let_def)
      apply (rule ensures_if)
       apply (simp add: "1.prems")
      apply (rule ensures_andThen [OF storeAt_pinIgnored [OF "1.prems"]])
      apply (rule ensures_andThen [where P = "pinIgnored p"], erule storeAt_pinIgnored)+
      apply (rule "1.IH" [OF True refl])
       apply simp
      apply (simp add: pinIgnored_def)
      done
  next
    case False
    with "1.prems" show ?thesis
      by (subst bulkCopy.simps) auto
  qed
qed

lemma processInput_pinIgnored:
  assumes "pinIgnored p s"
  shows "ensures (processInput large_mem s) anyFault (pinIgnored p)"
proof -
  have upd: "pinIgnored p (s\<lparr>streamIn := x\<rparr>)" for x
    using assms by (simp add: pinIgnored_def)
  show ?thesis
    unfolding processInput_def Let_def
    apply (intro ensures_if)
      apply (simp add: anyFault_def)
     apply (rule ensures_andThen [OF bulkCopy_pinIgnored [OF upd]])
     apply (simp only: split_beta)
     apply (erule parse_all_pinIgnored)
    apply (cases "streamIn s")
     apply (simp add: assms)
    apply (simp add: parse_pinIgnored [OF upd])
    done
qed

section \<open>The ignore sentinel\<close>

lemma ensures_result:
  "ensures r E Q \<Longrightarrow> r = Inr x \<Longrightarrow> Q x"
  by simp

lemma setPinMode_ignored:
  "pinIgnored (unat pin) s \<Longrightarrow> setPinMode pin config s = Inr s"
  by (simp add: setPinMode_def pinIgnored_def)

lemma setPinMode_applied:
  assumes "unat pin < length (pinConfig s)" and "unat pin < length (pinState s)"
    and "pinConfig s ! unat pin \<noteq> PIN_MODE_IGNORE"
  shows "setPinMode pin config s =
     Inr (s\<lparr>pinState := (pinState s)[unat pin := 0],
           pinConfig := (pinConfig s)[unat pin := config],
           calls := calls s @
             (if currentPinModeCallback s then [PinModeCallback pin (uint config)] else [])\<rparr>)"
  using assms by (simp add: setPinMode_def Let_def)

lemma setPinState_pinIgnored:
  "pinIgnored p s \<Longrightarrow> ensures (setPinState pin v s) anyFault (pinIgnored p)"
  by (simp add: setPinState_def pinIgnored_def anyFault_def)

text \<open>
  Claim C7. \<open>setPinMode\<close> on a pin whose mode is \<^verbatim>\<open>PIN_MODE_IGNORE\<close> returns the engine
  as it was: the mode stays, the state is not zeroed, the pin-mode handler is not
  called (first conjunct). On an existing pin with any other mode it zeroes the pin's
  state, stores the new mode and calls the pin-mode handler when one is attached
  (second conjunct). And once a pin is ignored it stays ignored through every
  operation that returns: \<open>setPinMode\<close> and \<open>setPinState\<close> on any pin, any sequence
  of bytes given to \<open>parse\<close>, and \<open>processInput\<close> (third conjunct).
\<close>

theorem ignored_pin_is_write_once:
  "(pinIgnored (unat pin) s \<longrightarrow> setPinMode pin config s = Inr s)
   \<and> (unat pin < length (pinConfig s) \<and> unat pin < length (pinState s)
        \<and> pinConfig s ! unat pin \<noteq> PIN_MODE_IGNORE \<longrightarrow>
      setPinMode pin config s =
        Inr (s\<lparr>pinState := (pinState s)[unat pin := 0],
              pinConfig := (pinConfig s)[unat pin := config],
              calls := calls s @
                (if currentPinModeCallback s then [PinModeCallback pin (uint config)] else [])\<rparr>))
   \<and> (pinIgnored p s \<longrightarrow>
        (\<forall>s'. setPinMode pin config s = Inr s' \<longrightarrow> pinIgnored p s')
      \<and> (\<forall>s'. setPinState pin state s = Inr s' \<longrightarrow> pinIgnored p s')
      \<and> (\<forall>s'. forEach bytes (parse large_mem) s = Inr s' \<longrightarrow> pinIgnored p s')
      \<and> (\<forall>s'. processInput large_mem s = Inr s' \<longrightarrow> pinIgnored p s'))"
proof (intro conjI impI allI)
  assume "pinIgnored (unat pin) s"
  then show "setPinMode pin config s = Inr s"
    by (rule setPinMode_ignored)
next
  assume "unat pin < length (pinConfig s) \<and> unat pin < length (pinState s)
        \<and> pinConfig s ! unat pin \<noteq> PIN_MODE_IGNORE"
  then show "setPinMode pin config s =
        Inr (s\<lparr>pinState := (pinState s)[unat pin := 0],
              pinConfig := (pinConfig s)[unat pin := config],
              calls := calls s @
                (if currentPinModeCallback s then [PinModeCallback pin (uint config)] else [])\<rparr>)"
    by (simp add: setPinMode_applied)
next
  fix s'
  assume "pinIgnored p s" and "setPinMode pin config s = Inr s'"
  then show "pinIgnored p s'"
    using setPinMode_pinIgnored [of p s pin config] by (simp add: ensures_result)
next
  fix s'
  assume "pinIgnored p s" and "setPinState pin state s = Inr s'"
  then show "pinIgnored p s'"
    using setPinState_pinIgnored [of p s pin state] by (simp add: ensures_result)
next
  fix s'
  assume "pinIgnored p s" and "forEach bytes (parse large_mem) s = Inr s'"
  then show "pinIgnored p s'"
    using parse_all_pinIgnored [of p s bytes large_mem] by (simp add: ensures_result)
next
  fix s'
  assume "pinIgnored p s" and "processInput large_mem s = Inr s'"
  then show "pinIgnored p s'"
    using processInput_pinIgnored [of p s large_mem] by (simp add: ensures_result)
qed

theorem ignored_pin_is_write_once_witness:
  "pinIgnored 3 ignoredPin
   \<and> setPinMode 3 1 ignoredPin = Inr ignoredPin
   \<and> (\<exists>s'. forEach [0xF4, 0x03, 0x01] (parse False) ignoredPin = Inr s' \<and> pinIgnored 3 s')
   \<and> (\<exists>s'. setPinState 3 0 ignoredPin = Inr s' \<and> pinIgnored 3 s')
   \<and> (\<exists>s'. processInput False (ignoredPin\<lparr>streamIn := [0xFF]\<rparr>) = Inr s' \<and> pinIgnored 3 s')
   \<and> (\<exists>s'. setPinMode 4 1 ignoredPin = Inr s' \<and> pinConfig s' ! 4 = 1 \<and> pinState s' ! 4 = 0
          \<and> calls s' = [PinModeCallback 4 1])"
proof -
  have ign: "pinIgnored 3 ignoredPin" and ign': "pinIgnored 3 (ignoredPin\<lparr>streamIn := [0xFF]\<rparr>)"
    by (simp_all add: pinIgnored_def ignoredPin_def)
  have other: "unat (4 :: byte) < length (pinConfig ignoredPin)
      \<and> unat (4 :: byte) < length (pinState ignoredPin)
      \<and> pinConfig ignoredPin ! unat (4 :: byte) \<noteq> PIN_MODE_IGNORE"
    by (simp add: ignoredPin_def PIN_MODE_IGNORE_def)
  have run: "forEach [0xF4, 0x03, 0x01] (parse False) ignoredPin
      = Inr (ignoredPin\<lparr>storedInputData := (storedInputData ignoredPin)[1 := 3, 0 := 1]\<rparr>)"
    by code_simp
  have st: "setPinState 3 0 ignoredPin
      = Inr (ignoredPin\<lparr>pinState := (pinState ignoredPin)[3 := 0]\<rparr>)"
    by code_simp
  have inp: "\<exists>s'. processInput False (ignoredPin\<lparr>streamIn := [0xFF]\<rparr>) = Inr s'"
    by (simp add: processInput_def parse_SYSTEM_RESET [unfolded SYSTEM_RESET_def] ignoredPin_def
        exampleEngine_def zeroInitialized_def)
  have ign3: "pinIgnored (unat (3 :: byte)) ignoredPin"
    using ign by simp
  note main = ignored_pin_is_write_once
  have a: "setPinMode 3 1 ignoredPin = Inr ignoredPin"
    by (rule main [where pin = 3 and s = ignoredPin and config = 1, THEN conjunct1, THEN mp,
          OF ign3])
  note inv = main [where p = 3 and s = ignoredPin and pin = 3 and state = 0
      and bytes = "[0xF4, 0x03, 0x01]" and large_mem = False,
      THEN conjunct2, THEN conjunct2, THEN mp, OF ign]
  have b: "\<exists>s'. forEach [0xF4, 0x03, 0x01] (parse False) ignoredPin = Inr s' \<and> pinIgnored 3 s'"
    using inv [THEN conjunct2, THEN conjunct2, THEN conjunct1, THEN spec, THEN mp, OF run] run
    by blast
  have c: "\<exists>s'. setPinState 3 0 ignoredPin = Inr s' \<and> pinIgnored 3 s'"
    using inv [THEN conjunct2, THEN conjunct1, THEN spec, THEN mp, OF st] st
    by blast
  note inv' = main [where p = 3 and s = "ignoredPin\<lparr>streamIn := [0xFF]\<rparr>" and large_mem = False,
      THEN conjunct2, THEN conjunct2, THEN mp, OF ign',
      THEN conjunct2, THEN conjunct2, THEN conjunct2]
  have d: "\<exists>s'. processInput False (ignoredPin\<lparr>streamIn := [0xFF]\<rparr>) = Inr s' \<and> pinIgnored 3 s'"
    using inv' inp by blast
  have "setPinMode 4 1 ignoredPin =
        Inr (ignoredPin\<lparr>pinState := (pinState ignoredPin)[unat (4 :: byte) := 0],
              pinConfig := (pinConfig ignoredPin)[unat (4 :: byte) := 1],
              calls := calls ignoredPin @
                (if currentPinModeCallback ignoredPin then [PinModeCallback 4 (uint (1 :: byte))] else [])\<rparr>)"
    by (rule main [where pin = 4 and s = ignoredPin and config = 1, THEN conjunct2, THEN conjunct1,
          THEN mp, OF other])
  then have e: "\<exists>s'. setPinMode 4 1 ignoredPin = Inr s' \<and> pinConfig s' ! 4 = 1 \<and> pinState s' ! 4 = 0
          \<and> calls s' = [PinModeCallback 4 1]"
    by (simp add: ignoredPin_def exampleEngine_def zeroInitialized_def)
  from ign a b c d e show ?thesis
    by blast
qed

section \<open>Sysex collection and the full buffer\<close>

lemma two7bit_of_byte:
  "word_of_int (uint c AND 0x7F) = (c AND 0x7F :: byte)"
  "word_of_int (drop_bit 7 (uint c) AND 0x7F) = (drop_bit 7 c AND 0x7F :: byte)"
  by (rule bit_word_eqI; simp add: bit_simps; fail)+


lemma sendValueAsTwo7bitBytes_bound:
  "FirmataStream s \<Longrightarrow>
     sendValueAsTwo7bitBytes (uint c) s =
       Inr (s\<lparr>streamOut := streamOut s @ [c AND 0x7F, drop_bit 7 c AND 0x7F]\<rparr>)"
  by (simp add: sendValueAsTwo7bitBytes_def write_byte_bound two7bit_of_byte)

lemma sendEach_bound:
  "FirmataStream s \<Longrightarrow>
     forEach str (\<lambda>c. sendValueAsTwo7bitBytes (uint c)) s =
       Inr (s\<lparr>streamOut := streamOut s
              @ concat (map (\<lambda>c. [c AND 0x7F, drop_bit 7 c AND 0x7F]) str)\<rparr>)"
proof (induction str arbitrary: s)
  case Nil
  then show ?case by simp
next
  case (Cons c str)
  let ?s1 = "s\<lparr>streamOut := streamOut s @ [c AND 0x7F, drop_bit 7 c AND 0x7F]\<rparr>"
  from Cons.prems have "FirmataStream ?s1"
    by simp
  from Cons.IH [OF this] Cons.prems show ?case
    by (simp add: sendValueAsTwo7bitBytes_bound)
qed

lemma sendString_bound:
  assumes "FirmataStream s"
  shows "sendString str s =
     Inr (s\<lparr>serialOut := serialOut s @ (if outputIsConsole s then [] else str @ [0x0D, 0x0A]),
           streamOut := streamOut s @ stringMessage str\<rparr>)"
proof -
  let ?s0 = "if \<not> outputIsConsole s
             then s\<lparr>serialOut := serialOut s @ str @ [0x0D, 0x0A]\<rparr> else s"
  let ?s2 = "?s0\<lparr>streamOut := streamOut s @ [START_SYSEX, STRING_DATA]\<rparr>"
  from assms have b: "FirmataStream ?s0" "FirmataStream ?s2"
    by simp_all
  have "sendString str s =
          andThen (forEach str (\<lambda>c. sendValueAsTwo7bitBytes (uint c)) ?s2) endSysex"
    using assms b(1)
    by (simp add: sendString_def startSysex_def write_byte_bound Let_def)
  also have "\<dots> = endSysex (?s2\<lparr>streamOut := streamOut ?s2
              @ concat (map (\<lambda>c. [c AND 0x7F, drop_bit 7 c AND 0x7F]) str)\<rparr>)"
    by (simp only: sendEach_bound [OF b(2)] andThen_Inr)
  finally show ?thesis
    using assms by (simp add: endSysex_def write_byte_bound stringMessage_def)
qed

lemma parse_sysex_data:
  assumes "parsingSysex s" and "inputData \<noteq> SYSTEM_RESET" and "inputData \<noteq> END_SYSEX"
    and "0 \<le> sysexBytesRead s" and "sysexBytesRead s < int (length (storedInputData s))"
  shows "parse large_mem inputData s =
     (let s1 = s\<lparr>storedInputData := (storedInputData s)[nat (sysexBytesRead s) := inputData],
                 sysexBytesRead := sysexBytesRead s + 1\<rparr>
      in if sysexBytesRead s + 1 = int (MAX_DATA_BYTES large_mem)
         then andThen (sendString discardingMessage s1)
                (\<lambda>s. Inr (s\<lparr>parsingSysex := False, sysexBytesRead := 0, waitForData := 0\<rparr>))
         else Inr s1)"
proof -
  have "parse large_mem inputData s =
     andThen (storeAt (sysexBytesRead s) inputData s) (\<lambda>s.
             let s = s\<lparr>sysexBytesRead := sysexBytesRead s + 1\<rparr>
             in if sysexBytesRead s = int (MAX_DATA_BYTES large_mem) then
                  andThen (sendString discardingMessage s) (\<lambda>s.
                  Inr (s\<lparr>parsingSysex := False, sysexBytesRead := 0, waitForData := 0\<rparr>))
                else Inr s)"
    unfolding parse_def by (simp only: assms(1-3) if_False if_True)
  also have "storeAt (sysexBytesRead s) inputData s =
      Inr (s\<lparr>storedInputData := (storedInputData s)[nat (sysexBytesRead s) := inputData]\<rparr>)"
    using assms(4,5) by (rule storeAt_in_range)
  finally show ?thesis
    by (simp add: Let_def)
qed

lemma collect_buffer:
  assumes "n < length xs"
  shows "take (Suc n) (xs[n := b]) @ payload @ drop (Suc n + length payload) (xs[n := b])
       = take n xs @ (b # payload) @ drop (n + length (b # payload)) xs"
proof -
  from assms have "take (Suc n) (xs[n := b]) = take n xs @ [b]"
    by (simp add: take_Suc_conv_app_nth)
  moreover have "drop (Suc n + length payload) (xs[n := b]) = drop (Suc n + length payload) xs"
    by simp
  ultimately show ?thesis
    by simp
qed

lemma sysex_collect:
  assumes "parsingSysex s" and "sysexData payload" and "0 \<le> sysexBytesRead s"
    and "nat (sysexBytesRead s) + length payload < MAX_DATA_BYTES large_mem"
    and "length (storedInputData s) = MAX_DATA_BYTES large_mem"
  shows "forEach payload (parse large_mem) s =
     Inr (s\<lparr>storedInputData :=
             take (nat (sysexBytesRead s)) (storedInputData s) @ payload
               @ drop (nat (sysexBytesRead s) + length payload) (storedInputData s),
           sysexBytesRead := sysexBytesRead s + int (length payload)\<rparr>)"
  using assms
proof (induction payload arbitrary: s)
  case Nil
  then show ?case by simp
next
  case (Cons b payload)
  let ?n = "nat (sysexBytesRead s)"
  let ?s1 = "s\<lparr>storedInputData := (storedInputData s)[?n := b],
                 sysexBytesRead := sysexBytesRead s + 1\<rparr>"
  from Cons.prems have b: "b \<noteq> SYSTEM_RESET" "b \<noteq> END_SYSEX" and rest: "sysexData payload"
    by (simp_all add: sysexData_def)
  from Cons.prems have n: "?n < length (storedInputData s)"
    and more: "sysexBytesRead s + 1 \<noteq> int (MAX_DATA_BYTES large_mem)"
    by simp_all
  have step: "parse large_mem b s = Inr ?s1"
    using parse_sysex_data [OF Cons.prems(1) b Cons.prems(3), of large_mem] n more
    by (simp add: Let_def)
  have n1: "nat (sysexBytesRead ?s1) = Suc ?n"
    using Cons.prems(3) by simp
  have ih: "forEach payload (parse large_mem) ?s1 =
     Inr (?s1\<lparr>storedInputData :=
             take (nat (sysexBytesRead ?s1)) (storedInputData ?s1) @ payload
               @ drop (nat (sysexBytesRead ?s1) + length payload) (storedInputData ?s1),
           sysexBytesRead := sysexBytesRead ?s1 + int (length payload)\<rparr>)"
    using Cons.prems rest by (intro Cons.IH) simp_all
  have "forEach (b # payload) (parse large_mem) s = forEach payload (parse large_mem) ?s1"
    by (simp only: forEach.simps step andThen_Inr)
  also note ih
  also have "?s1\<lparr>storedInputData :=
             take (nat (sysexBytesRead ?s1)) (storedInputData ?s1) @ payload
               @ drop (nat (sysexBytesRead ?s1) + length payload) (storedInputData ?s1),
           sysexBytesRead := sysexBytesRead ?s1 + int (length payload)\<rparr>
      = s\<lparr>storedInputData :=
             take ?n (storedInputData s) @ (b # payload)
               @ drop (?n + length (b # payload)) (storedInputData s),
           sysexBytesRead := sysexBytesRead s + int (length (b # payload))\<rparr>"
    unfolding n1 using collect_buffer [OF n, of b payload] by simp
  finally show ?case .
qed


lemma MAX_DATA_BYTES_pos: "0 < MAX_DATA_BYTES large_mem" "5 \<le> MAX_DATA_BYTES large_mem"
  "MAX_DATA_BYTES large_mem \<le> 252"
  by (simp_all add: MAX_DATA_BYTES_def)

lemma parse_START_SYSEX:
  assumes "\<not> parsingSysex s"
  shows "parse large_mem START_SYSEX s = Inr (s\<lparr>parsingSysex := True, sysexBytesRead := 0\<rparr>)"
proof -
  have "START_SYSEX \<noteq> SYSTEM_RESET" and "\<not> (waitForData s > 0 \<and> START_SYSEX < 128)"
    by (simp_all add: command_defs)
  from parse_new_message [OF this(1) assms this(2), of large_mem] show ?thesis
    by (simp add: startCommand_def command_defs)
qed

lemma parse_END_SYSEX:
  assumes "parsingSysex s"
  shows "parse large_mem END_SYSEX s = processSysexMessage (s\<lparr>parsingSysex := False\<rparr>)"
  using assms by (simp add: parse_def command_defs)

lemma parse_END_SYSEX_idle:
  assumes "\<not> isParsingMessage s"
  shows "parse large_mem END_SYSEX s = Inr s"
proof -
  have "\<not> recognized (commandOf END_SYSEX)"
    by (simp add: recognized_def commandOf_def command_defs)
  from parse_unrecognized_idle [OF assms this, of large_mem] show ?thesis
    by (simp add: END_SYSEX_def)
qed

lemma sysex_open_collect:
  assumes "\<not> parsingSysex s" and "sysexData payload"
    and "length payload < MAX_DATA_BYTES large_mem"
    and "length (storedInputData s) = MAX_DATA_BYTES large_mem"
  shows "forEach (START_SYSEX # payload) (parse large_mem) s =
     Inr (s\<lparr>parsingSysex := True, sysexBytesRead := int (length payload),
           storedInputData := payload @ drop (length payload) (storedInputData s)\<rparr>)"
proof -
  let ?s1 = "s\<lparr>parsingSysex := True, sysexBytesRead := 0\<rparr>"
  have "forEach (START_SYSEX # payload) (parse large_mem) s = forEach payload (parse large_mem) ?s1"
    by (simp only: forEach.simps parse_START_SYSEX [OF assms(1)] andThen_Inr)
  also have "\<dots> = Inr (?s1\<lparr>storedInputData :=
             take (nat (sysexBytesRead ?s1)) (storedInputData ?s1) @ payload
               @ drop (nat (sysexBytesRead ?s1) + length payload) (storedInputData ?s1),
           sysexBytesRead := sysexBytesRead ?s1 + int (length payload)\<rparr>)"
    using assms by (intro sysex_collect) simp_all
  finally show ?thesis
    by simp
qed

lemma sysex_dispatch:
  assumes "\<not> parsingSysex s" and "sysexData payload"
    and "length payload < MAX_DATA_BYTES large_mem"
    and "length (storedInputData s) = MAX_DATA_BYTES large_mem"
  shows "forEach (START_SYSEX # payload @ [END_SYSEX]) (parse large_mem) s =
     processSysexMessage
       (s\<lparr>sysexBytesRead := int (length payload),
          storedInputData := payload @ drop (length payload) (storedInputData s)\<rparr>)"
proof -
  let ?s2 = "s\<lparr>parsingSysex := True, sysexBytesRead := int (length payload),
           storedInputData := payload @ drop (length payload) (storedInputData s)\<rparr>"
  have "forEach (START_SYSEX # payload @ [END_SYSEX]) (parse large_mem) s
      = forEach ((START_SYSEX # payload) @ [END_SYSEX]) (parse large_mem) s"
    by simp
  also have "\<dots> = forEach [END_SYSEX] (parse large_mem) ?s2"
    by (simp only: forEach_append sysex_open_collect [OF assms] andThen_Inr)
  also have "\<dots> = parse large_mem END_SYSEX ?s2"
    by (simp add: andThen_def split: sum.splits)
  also have "\<dots> = processSysexMessage (?s2\<lparr>parsingSysex := False\<rparr>)"
    by (rule parse_END_SYSEX) simp
  also have "?s2\<lparr>parsingSysex := False\<rparr> =
      s\<lparr>parsingSysex := parsingSysex s, sysexBytesRead := int (length payload),
          storedInputData := payload @ drop (length payload) (storedInputData s)\<rparr>"
    using assms(1) by simp
  finally show ?thesis
    by simp
qed

lemma sysex_overflow:
  assumes "\<not> parsingSysex s" and "sysexData payload"
    and "length payload = MAX_DATA_BYTES large_mem"
    and "length (storedInputData s) = MAX_DATA_BYTES large_mem" and "FirmataStream s"
  shows "forEach (START_SYSEX # payload) (parse large_mem) s =
     Inr (s\<lparr>storedInputData := payload,
           serialOut := serialOut s
             @ (if outputIsConsole s then [] else discardingMessage @ [0x0D, 0x0A]),
           streamOut := streamOut s @ stringMessage discardingMessage,
           parsingSysex := False, sysexBytesRead := 0, waitForData := 0\<rparr>)"
proof -
  let ?m = "MAX_DATA_BYTES large_mem"
  let ?front = "butlast payload" and ?b = "last payload"
  let ?s2 = "s\<lparr>parsingSysex := True, sysexBytesRead := int (length ?front),
           storedInputData := ?front @ drop (length ?front) (storedInputData s)\<rparr>"
  let ?s3 = "?s2\<lparr>storedInputData := (storedInputData ?s2)[nat (sysexBytesRead ?s2) := ?b],
                 sysexBytesRead := sysexBytesRead ?s2 + 1\<rparr>"
  from assms(3) MAX_DATA_BYTES_pos(1) [of large_mem] have ne: "payload \<noteq> []"
    by auto
  then have split: "payload = ?front @ [?b]"
    by simp
  from assms(3) ne MAX_DATA_BYTES_pos(1) [of large_mem]
  have lf: "length ?front = ?m - 1" and lt: "length ?front < ?m"
    by simp_all
  from assms(2) have "list_all (\<lambda>b. b \<noteq> SYSTEM_RESET \<and> b \<noteq> END_SYSEX) (?front @ [?b])"
    unfolding sysexData_def using split by simp
  then have data: "sysexData ?front" "?b \<noteq> SYSTEM_RESET" "?b \<noteq> END_SYSEX"
    unfolding sysexData_def by simp_all
  have buf: "(?front @ drop (length ?front) (storedInputData s))[length ?front := ?b] = payload"
  proof -
    from assms(4) lf MAX_DATA_BYTES_pos(1) [of large_mem]
    have "length (drop (length ?front) (storedInputData s)) = 1"
      by simp
    then obtain x where "drop (length ?front) (storedInputData s) = [x]"
      by (metis One_nat_def length_0_conv length_Suc_conv)
    with split show ?thesis
      by (simp add: list_update_append)
  qed
  have "forEach (START_SYSEX # payload) (parse large_mem) s
      = forEach ((START_SYSEX # ?front) @ [?b]) (parse large_mem) s"
    using split by simp
  also have "\<dots> = forEach [?b] (parse large_mem) ?s2"
    by (simp only: forEach_append sysex_open_collect [OF assms(1) data(1) lt assms(4)] andThen_Inr)
  also have "\<dots> = parse large_mem ?b ?s2"
    by (simp add: andThen_def split: sum.splits)
  also have "\<dots> = andThen (sendString discardingMessage ?s3)
                (\<lambda>s. Inr (s\<lparr>parsingSysex := False, sysexBytesRead := 0, waitForData := 0\<rparr>))"
  proof -
    have f: "parsingSysex ?s2" "0 \<le> sysexBytesRead ?s2"
      "sysexBytesRead ?s2 < int (length (storedInputData ?s2))"
      and full: "sysexBytesRead ?s2 + 1 = int ?m"
      using assms(4) lf lt MAX_DATA_BYTES_pos(1) [of large_mem] by simp_all
    have "parse large_mem ?b ?s2 =
     (let s1 = ?s2\<lparr>storedInputData := (storedInputData ?s2)[nat (sysexBytesRead ?s2) := ?b],
                 sysexBytesRead := sysexBytesRead ?s2 + 1\<rparr>
      in if sysexBytesRead ?s2 + 1 = int (MAX_DATA_BYTES large_mem)
         then andThen (sendString discardingMessage s1)
                (\<lambda>s. Inr (s\<lparr>parsingSysex := False, sysexBytesRead := 0, waitForData := 0\<rparr>))
         else Inr s1)"
      by (rule parse_sysex_data [OF f(1) data(2,3) f(2,3)])
    also have "\<dots> = andThen (sendString discardingMessage ?s3)
                (\<lambda>s. Inr (s\<lparr>parsingSysex := False, sysexBytesRead := 0, waitForData := 0\<rparr>))"
      using full by (simp add: Let_def)
    finally show ?thesis .
  qed
  also have "sendString discardingMessage ?s3 =
     Inr (?s3\<lparr>serialOut := serialOut ?s3
             @ (if outputIsConsole ?s3 then [] else discardingMessage @ [0x0D, 0x0A]),
           streamOut := streamOut ?s3 @ stringMessage discardingMessage\<rparr>)"
    using assms(5) by (intro sendString_bound) simp
  finally show ?thesis
    using buf by simp
qed


lemma sysex_overflow_discarded:
  assumes "\<not> parsingSysex s" and "sysexData payload"
    and "length payload = MAX_DATA_BYTES large_mem"
    and "length (storedInputData s) = MAX_DATA_BYTES large_mem" and "FirmataStream s"
  shows "forEach (START_SYSEX # payload @ [END_SYSEX]) (parse large_mem) s =
     Inr (s\<lparr>storedInputData := payload,
           serialOut := serialOut s
             @ (if outputIsConsole s then [] else discardingMessage @ [0x0D, 0x0A]),
           streamOut := streamOut s @ stringMessage discardingMessage,
           parsingSysex := False, sysexBytesRead := 0, waitForData := 0\<rparr>)"
proof -
  let ?s' = "s\<lparr>storedInputData := payload,
           serialOut := serialOut s
             @ (if outputIsConsole s then [] else discardingMessage @ [0x0D, 0x0A]),
           streamOut := streamOut s @ stringMessage discardingMessage,
           parsingSysex := False, sysexBytesRead := 0, waitForData := 0\<rparr>"
  have idle: "\<not> isParsingMessage ?s'"
    by (simp add: isParsingMessage_def)
  have "forEach (START_SYSEX # payload @ [END_SYSEX]) (parse large_mem) s
      = forEach ((START_SYSEX # payload) @ [END_SYSEX]) (parse large_mem) s"
    by simp
  also have "\<dots> = forEach [END_SYSEX] (parse large_mem) ?s'"
    by (simp only: forEach_append sysex_overflow [OF assms] andThen_Inr)
  also have "\<dots> = parse large_mem END_SYSEX ?s'"
    by (simp add: andThen_def split: sum.splits)
  also have "\<dots> = Inr ?s'"
    using idle by (rule parse_END_SYSEX_idle)
  finally show ?thesis .
qed

lemma dispatch_generic:
  assumes "length payload = Suc k" and "k < 256"
    and "hd payload \<noteq> REPORT_FIRMWARE" and "hd payload \<noteq> STRING_DATA"
  shows "processSysexMessage
       (s\<lparr>sysexBytesRead := int (length payload), storedInputData := payload @ r\<rparr>) =
     Inr (s\<lparr>sysexBytesRead := int (length payload), storedInputData := payload @ r,
           calls := calls s @
             (if currentSysexCallback s
              then [SysexCallback (hd payload) (of_nat k) (tl payload)] else [])\<rparr>)"
proof -
  let ?t = "s\<lparr>sysexBytesRead := int (length payload), storedInputData := payload @ r\<rparr>"
  from assms(1) obtain c rest where p: "payload = c # rest" and lr: "length rest = k"
    by (cases payload) auto
  have argc: "(word_of_int (sysexBytesRead ?t - 1) :: byte) = of_nat k"
    using assms(1) by simp
  have "unat (of_nat k :: byte) = k"
    using assms(2) by (simp add: unat_of_nat)
  with p lr have argv: "take (unat (of_nat k :: byte)) (drop 1 (storedInputData ?t)) = tl payload"
    by simp
  have "processSysexMessage ?t =
     Inr (?t\<lparr>calls := calls ?t @
        (if currentSysexCallback ?t
         then [SysexCallback (storedInputData ?t ! 0) (word_of_int (sysexBytesRead ?t - 1))
                 (take (unat (word_of_int (sysexBytesRead ?t - 1) :: byte))
                    (drop 1 (storedInputData ?t)))]
         else [])\<rparr>)"
    using assms(3,4) p by (intro processSysexMessage_other) simp_all
  then show ?thesis
    unfolding argc argv using p by simp
qed

text \<open>
  With the 64-byte buffer, a sysex message of exactly 64 data bytes followed by the
  end marker is not dispatched although a sysex handler is attached: the sixty-fourth
  byte fills the buffer, the diagnostic goes out and the message is dropped.
\<close>

theorem sysex_capacity_counterexample:
  "length (replicate 64 (1 :: byte)) = MAX_DATA_BYTES False
   \<and> currentSysexCallback (exampleEngine False)
   \<and> map_sum id calls
        (forEach (START_SYSEX # replicate 64 1 @ [END_SYSEX]) (parse False) (exampleEngine False))
       = Inr []
   \<and> map_sum id streamOut
        (forEach (START_SYSEX # replicate 64 1 @ [END_SYSEX]) (parse False) (exampleEngine False))
       = Inr (stringMessage discardingMessage)"
proof -
  let ?e = "exampleEngine False"
  have a: "\<not> parsingSysex ?e" "length (storedInputData ?e) = MAX_DATA_BYTES False"
    "FirmataStream ?e" "currentSysexCallback ?e" "calls ?e = []" "streamOut ?e = []"
    by (simp_all add: exampleEngine_def zeroInitialized_def)
  have d: "sysexData (replicate 64 1)"
    by (simp add: sysexData_def list_all_length command_defs)
  have l: "length (replicate 64 (1 :: byte)) = MAX_DATA_BYTES False"
    by (simp add: MAX_DATA_BYTES_def)
  show ?thesis
    using a(4,5,6) l
    by (simp only: sysex_overflow_discarded [OF a(1) d l a(2,3)], simp)
qed

text \<open>
  Claim C1, as the code has it. From the idle state, with the overflow test
  \<open>sysexBytesRead == MAX_DATA_BYTES\<close> made after each stored byte:
  a payload shorter than \<^verbatim>\<open>MAX_DATA_BYTES\<close> is collected without any output or call,
  and its end marker hands the buffered payload to \<open>processSysexMessage\<close> (first
  conjunct); in particular a payload of \<^verbatim>\<open>MAX_DATA_BYTES - 1\<close> bytes, the longest
  that completes, is dispatched, to the generic sysex handler when its command is
  neither \<^verbatim>\<open>REPORT_FIRMWARE\<close> nor \<^verbatim>\<open>STRING_DATA\<close> (second conjunct); and the
  byte that makes the payload \<^verbatim>\<open>MAX_DATA_BYTES\<close> long triggers the overflow path on a
  bound transport: the diagnostic string message is written, no handler is called, the
  parser is idle with a byte count of zero, and a following end marker changes
  nothing (third conjunct).
\<close>

theorem sysex_capacity_boundary:
  "\<not> isParsingMessage s \<and> length (storedInputData s) = MAX_DATA_BYTES large_mem
     \<and> sysexData payload \<longrightarrow>
   (length payload < MAX_DATA_BYTES large_mem \<longrightarrow>
      forEach (START_SYSEX # payload) (parse large_mem) s =
        Inr (s\<lparr>parsingSysex := True, sysexBytesRead := int (length payload),
              storedInputData := payload @ drop (length payload) (storedInputData s)\<rparr>)
    \<and> forEach (START_SYSEX # payload @ [END_SYSEX]) (parse large_mem) s =
        processSysexMessage
          (s\<lparr>sysexBytesRead := int (length payload),
             storedInputData := payload @ drop (length payload) (storedInputData s)\<rparr>))
   \<and> (length payload = MAX_DATA_BYTES large_mem - 1
        \<and> hd payload \<noteq> REPORT_FIRMWARE \<and> hd payload \<noteq> STRING_DATA \<longrightarrow>
      (\<exists>s'. forEach (START_SYSEX # payload @ [END_SYSEX]) (parse large_mem) s = Inr s'
         \<and> calls s' = calls s @
              (if currentSysexCallback s
               then [SysexCallback (hd payload) (of_nat (MAX_DATA_BYTES large_mem - 2)) (tl payload)]
               else [])
         \<and> streamOut s' = streamOut s \<and> \<not> isParsingMessage s'))
   \<and> (length payload = MAX_DATA_BYTES large_mem \<and> FirmataStream s \<longrightarrow>
      (\<exists>s'. forEach (START_SYSEX # payload) (parse large_mem) s = Inr s'
         \<and> written s s' = stringMessage discardingMessage
         \<and> calls s' = calls s \<and> \<not> isParsingMessage s' \<and> sysexBytesRead s' = 0
         \<and> forEach (START_SYSEX # payload @ [END_SYSEX]) (parse large_mem) s = Inr s'))"
proof (intro impI, elim conjE, intro conjI impI)
  assume idle: "\<not> isParsingMessage s"
    and len: "length (storedInputData s) = MAX_DATA_BYTES large_mem"
    and data: "sysexData payload"
  from idle have np: "\<not> parsingSysex s" and w: "waitForData s = 0"
    by (simp_all add: isParsingMessage_def word_greater_zero_iff)
  {
    assume short: "length payload < MAX_DATA_BYTES large_mem"
    show "forEach (START_SYSEX # payload) (parse large_mem) s =
        Inr (s\<lparr>parsingSysex := True, sysexBytesRead := int (length payload),
              storedInputData := payload @ drop (length payload) (storedInputData s)\<rparr>)"
      using np data short len by (rule sysex_open_collect)
    show "forEach (START_SYSEX # payload @ [END_SYSEX]) (parse large_mem) s =
        processSysexMessage
          (s\<lparr>sysexBytesRead := int (length payload),
             storedInputData := payload @ drop (length payload) (storedInputData s)\<rparr>)"
      using np data short len by (rule sysex_dispatch)
  }
  {
    assume "length payload = MAX_DATA_BYTES large_mem - 1
        \<and> hd payload \<noteq> REPORT_FIRMWARE \<and> hd payload \<noteq> STRING_DATA"
    then have full: "length payload = MAX_DATA_BYTES large_mem - 1"
      and cmd: "hd payload \<noteq> REPORT_FIRMWARE" "hd payload \<noteq> STRING_DATA"
      by simp_all
    from full MAX_DATA_BYTES_pos [of large_mem]
    have short: "length payload < MAX_DATA_BYTES large_mem"
      and k: "length payload = Suc (MAX_DATA_BYTES large_mem - 2)"
      "MAX_DATA_BYTES large_mem - 2 < 256"
      by simp_all
    show "\<exists>s'. forEach (START_SYSEX # payload @ [END_SYSEX]) (parse large_mem) s = Inr s'
         \<and> calls s' = calls s @
              (if currentSysexCallback s
               then [SysexCallback (hd payload) (of_nat (MAX_DATA_BYTES large_mem - 2)) (tl payload)]
               else [])
         \<and> streamOut s' = streamOut s \<and> \<not> isParsingMessage s'"
      using np w
      by (simp only: sysex_dispatch [OF np data short len] dispatch_generic [OF k cmd])
         (simp add: isParsingMessage_def)
  }
  {
    assume "length payload = MAX_DATA_BYTES large_mem \<and> FirmataStream s"
    then have full: "length payload = MAX_DATA_BYTES large_mem" and bound: "FirmataStream s"
      by simp_all
    show "\<exists>s'. forEach (START_SYSEX # payload) (parse large_mem) s = Inr s'
         \<and> written s s' = stringMessage discardingMessage
         \<and> calls s' = calls s \<and> \<not> isParsingMessage s' \<and> sysexBytesRead s' = 0
         \<and> forEach (START_SYSEX # payload @ [END_SYSEX]) (parse large_mem) s = Inr s'"
      by (simp only: sysex_overflow [OF np data full len bound]
            sysex_overflow_discarded [OF np data full len bound])
         (simp add: isParsingMessage_def written_def)
  }
qed


theorem sysex_capacity_boundary_witness:
  "\<not> isParsingMessage (exampleEngine False)
   \<and> length (storedInputData (exampleEngine False)) = MAX_DATA_BYTES False
   \<and> sysexData (replicate 63 1) \<and> sysexData (replicate 64 1)
   \<and> length (replicate 63 (1 :: byte)) = MAX_DATA_BYTES False - 1
   \<and> length (replicate 64 (1 :: byte)) = MAX_DATA_BYTES False
   \<and> FirmataStream (exampleEngine False)
   \<and> (\<exists>s'. forEach (START_SYSEX # replicate 63 1 @ [END_SYSEX]) (parse False)
              (exampleEngine False) = Inr s'
          \<and> calls s' = [SysexCallback 1 62 (replicate 62 1)] \<and> streamOut s' = [])
   \<and> (\<exists>s'. forEach (START_SYSEX # replicate 64 1) (parse False) (exampleEngine False) = Inr s'
          \<and> written (exampleEngine False) s' = stringMessage discardingMessage
          \<and> calls s' = [] \<and> \<not> isParsingMessage s')"
proof -
  let ?e = "exampleEngine False"
  have e: "\<not> isParsingMessage ?e" "length (storedInputData ?e) = MAX_DATA_BYTES False"
    "FirmataStream ?e"
    and f: "currentSysexCallback ?e" "calls ?e = []" "streamOut ?e = []"
    by (simp_all add: exampleEngine_def zeroInitialized_def isParsingMessage_def)
  have d: "sysexData (replicate 63 1)" "sysexData (replicate 64 1)"
    by (simp_all add: sysexData_def list_all_length command_defs)
  have l: "length (replicate 63 (1 :: byte)) = MAX_DATA_BYTES False - 1"
    "length (replicate 64 (1 :: byte)) = MAX_DATA_BYTES False"
    by (simp_all add: MAX_DATA_BYTES_def)
  have tl: "tl (replicate 63 (1 :: byte)) = replicate 62 1" "hd (replicate 63 (1 :: byte)) = 1"
    by (simp_all add: hd_replicate)
  have c: "hd (replicate 63 (1 :: byte)) \<noteq> REPORT_FIRMWARE"
    "hd (replicate 63 (1 :: byte)) \<noteq> STRING_DATA"
    unfolding tl by (simp_all add: command_defs)
  note at63 = sysex_capacity_boundary [where s = ?e and large_mem = False
      and payload = "replicate 63 1", THEN mp, OF conjI [OF e(1) conjI [OF e(2) d(1)]],
      THEN conjunct2, THEN conjunct1, THEN mp, OF conjI [OF l(1) conjI [OF c]]]
  note at64 = sysex_capacity_boundary [where s = ?e and large_mem = False
      and payload = "replicate 64 1", THEN mp, OF conjI [OF e(1) conjI [OF e(2) d(2)]],
      THEN conjunct2, THEN conjunct2, THEN mp, OF conjI [OF l(2) e(3)]]
  from at63 f tl have a: "\<exists>s'. forEach (START_SYSEX # replicate 63 1 @ [END_SYSEX]) (parse False)
              ?e = Inr s'
          \<and> calls s' = [SysexCallback 1 62 (replicate 62 1)] \<and> streamOut s' = []"
    by (auto simp add: MAX_DATA_BYTES_def)
  from at64 f have b: "\<exists>s'. forEach (START_SYSEX # replicate 64 1) (parse False) ?e = Inr s'
          \<and> written ?e s' = stringMessage discardingMessage
          \<and> calls s' = [] \<and> \<not> isParsingMessage s'"
    by auto
  from e d l a b show ?thesis
    by blast
qed

section \<open>Block reads on large-memory targets\<close>

lemma nearlyFull_reached:
  "processInput True ((exampleEngine True)\<lparr>streamIn := START_SYSEX # replicate 248 1\<rparr>)
     = Inr nearlyFull"
proof -
  let ?e = "exampleEngine True"
  have e: "FirmataStream ?e" "\<not> parsingSysex ?e" "streamIn ?e = []"
    "length (storedInputData ?e) = MAX_DATA_BYTES True" "sysexBytesRead ?e = 0"
    "storedInputData ?e = replicate 252 0"
    by (simp_all add: exampleEngine_def zeroInitialized_def MAX_DATA_BYTES_def)
  have d: "sysexData (replicate 248 1)" and l: "length (replicate 248 (1 :: byte)) < MAX_DATA_BYTES True"
    by (simp_all add: sysexData_def list_all_length command_defs MAX_DATA_BYTES_def)
  have short: "length (START_SYSEX # replicate 248 (1 :: byte)) \<le> LARGE_MEM_RCV_BUF_SIZE"
    by (simp add: LARGE_MEM_RCV_BUF_SIZE_def)
  have same: "?e\<lparr>streamIn := []\<rparr> = ?e"
    by (simp add: exampleEngine_def zeroInitialized_def)
  have "processInput True (?e\<lparr>streamIn := START_SYSEX # replicate 248 1\<rparr>)
      = forEach (START_SYSEX # replicate 248 1) (parse True) (?e\<lparr>streamIn := []\<rparr>)"
    using e(1,2,3) short
    by (simp add: processInput_def bulkCopy.simps Let_def del: forEach.simps)
  also have "\<dots> = forEach (START_SYSEX # replicate 248 1) (parse True) ?e"
    by (simp only: same)
  also have "\<dots> = Inr (?e\<lparr>parsingSysex := True,
           sysexBytesRead := int (length (replicate 248 (1 :: byte))),
           storedInputData := replicate 248 1
             @ drop (length (replicate 248 (1 :: byte))) (storedInputData ?e)\<rparr>)"
    using e(2) d l e(4) by (rule sysex_open_collect)
  also have "\<dots> = Inr nearlyFull"
    by (simp add: nearlyFull_def e(6))
  finally show ?thesis .
qed

text \<open>
  Claim C4 fails on the code. The engine \<open>nearlyFull\<close> is reached by one block read.
  Given the next block \<open>[1, 1, 1, 1, END_SYSEX]\<close>, the copying loop of \<open>processInput\<close>
  moves the four data bytes into the buffer and raises the byte count to 252 without
  the overflow test that \<open>parse\<close> makes after every byte, so the end marker dispatches
  a 252-byte message to the sysex handler and nothing is written; fed one byte at a
  time through \<open>parse\<close>, the same bytes trigger the overflow path: the diagnostic is
  written and no handler is called. With the byte count at 250 the copying loop writes
  past the end of the buffer, where \<open>parse\<close> discards the message.
\<close>

theorem bulk_copy_misses_overflow_check:
  "map_sum id calls (processInput True (nearlyFull\<lparr>streamIn := [1, 1, 1, 1, END_SYSEX]\<rparr>))
     = Inr [SysexCallback 1 251 (replicate 251 1)]
   \<and> map_sum id streamOut (processInput True (nearlyFull\<lparr>streamIn := [1, 1, 1, 1, END_SYSEX]\<rparr>))
     = Inr []
   \<and> map_sum id calls (forEach [1, 1, 1, 1, END_SYSEX] (parse True) nearlyFull) = Inr []
   \<and> map_sum id streamOut (forEach [1, 1, 1, 1, END_SYSEX] (parse True) nearlyFull)
     = Inr (stringMessage discardingMessage)
   \<and> processInput True (nearlyFull\<lparr>sysexBytesRead := 250, streamIn := [1, 1, 1, 1, 1]\<rparr>)
     = Inl BufferOutOfBounds
   \<and> map_sum id calls
       (forEach [1, 1, 1, 1, 1] (parse True) (nearlyFull\<lparr>sysexBytesRead := 250\<rparr>)) = Inr []"
  by code_simp

section \<open>Every buffer access of the parser is in bounds\<close>

lemma loadAt_ok:
  "0 \<le> i \<Longrightarrow> i < int (length (storedInputData s)) \<Longrightarrow> ensures (loadAt i s) E (\<lambda>v. True)"
  by (simp add: loadAt_def)

lemma storeAt_ok:
  "0 \<le> i \<Longrightarrow> i < int (length (storedInputData s)) \<Longrightarrow> control s = c \<Longrightarrow>
     ensures (storeAt i v s) E (\<lambda>s'. control s' = c)"
  by (auto simp add: storeAt_def control_def)

lemma control_length:
  "control s' = control s \<Longrightarrow> length (storedInputData s') = length (storedInputData s)"
  by (simp add: control_def)

lemma uint_less_length:
  assumes "unat (w :: byte) < n"
  shows "uint w < int n"
proof -
  from assms have "int (unat w) < int n"
    by (simp only: of_nat_less_iff)
  then show ?thesis
    by simp
qed

lemma unat_succ:
  "unat (w :: byte) + 1 < 256 \<Longrightarrow> unat (w + 1) = unat w + 1"
  by (simp add: unat_word_ariths)

lemma decodeString_in_bounds:
  assumes "control s = c" and "unat j \<le> unat bufferLength"
    and "unat i + 2 * (unat bufferLength - unat j) \<le> length (storedInputData s)"
    and "unat bufferLength \<le> length (storedInputData s)"
    and "length (storedInputData s) \<le> 255"
  shows "ensures (decodeString bufferLength i j s) notBuffer
           (\<lambda>r. fst r = bufferLength \<and> control (snd r) = c)"
  using assms
proof (induction bufferLength i j s rule: decodeString.induct)
  case (1 bufferLength i j s)
  let ?L = "length (storedInputData s)"
  show ?case
  proof (cases "j < bufferLength")
    case True
    then have lt: "unat j < unat bufferLength"
      by (simp add: word_less_nat_alt)
    with "1.prems" have i2: "unat i + 2 \<le> ?L" and jL: "unat j < ?L"
      by simp_all
    from i2 "1.prems"(5) have i1: "unat (i + 1) = unat i + 1"
      by (intro unat_succ) simp
    from i2 "1.prems"(5) i1 have i2': "unat (i + 1 + 1) = unat i + 2"
      using unat_succ [of "i + 1"] by simp
    from lt have j1: "unat (j + 1) = unat j + 1"
      using unat_succ [of j] unsigned_less [of bufferLength, where 'a = nat] by simp
    have len: "length (storedInputData s') = ?L" if "control s' = c" for s'
      using that "1.prems"(1) control_length [of s' s] by simp
    have ri: "0 \<le> uint i" "uint i < int (length (storedInputData s'))"
      and ri1: "0 \<le> uint (i + 1)" "uint (i + 1) < int (length (storedInputData s'))"
      and rj: "0 \<le> uint j" "uint j < int (length (storedInputData s'))"
      if "control s' = c" for s'
      using len [OF that] i2 i1 jL by (simp_all add: uint_less_length)
    have rec: "ensures (decodeString bufferLength (i + 1 + 1) (j + 1) s') notBuffer
           (\<lambda>r. fst r = bufferLength \<and> control (snd r) = c)" if "control s' = c" for s'
      apply (rule "1.IH" [OF True])
      using that len [OF that] "1.prems" lt i2' j1 by simp_all
    show ?thesis
      apply (subst decodeString.simps)
      apply (simp only: True if_True)
      apply (rule ensures_andThen [OF loadAt_ok [OF ri [OF "1.prems"(1)]]])
      apply (rule ensures_andThen [OF storeAt_ok [OF rj [OF "1.prems"(1)] "1.prems"(1)]])
      apply (rule ensures_andThen [OF loadAt_ok])
        apply (erule rj)
       apply (erule rj)
      apply (rule ensures_andThen [OF loadAt_ok])
        apply (erule ri1)
       apply (erule ri1)
      apply (rule ensures_andThen [OF storeAt_ok])
         apply (erule rj)
        apply (erule rj)
       apply assumption
      apply (erule rec)
      done
  next
    case False
    with "1.prems"(2) have "j = bufferLength"
      by (simp add: word_less_nat_alt word_unat_eq_iff)
    with False "1.prems"(1) show ?thesis
      by (subst decodeString.simps) simp
  qed
qed


lemma control_parser_inv:
  "control s' = control s \<Longrightarrow> parser_inv large_mem s \<Longrightarrow> parser_inv large_mem s'"
  by (simp add: control_def parser_inv_def)

lemma string_length_bound:
  assumes "1 \<le> n" and "n < 256"
  shows "unat (word_of_int ((n - 1) sdiv 2) :: byte) = nat ((n - 1) div 2)"
    and "1 + 2 * nat ((n - 1) div 2) \<le> nat n"
proof -
  from assms(1) have "(n - 1) sdiv 2 = (n - 1) div 2"
    by (simp add: signed_divide_int_def sgn_if)
  moreover from assms have "0 \<le> (n - 1) div 2" and "(n - 1) div 2 < 256"
    by simp_all
  ultimately show "unat (word_of_int ((n - 1) sdiv 2) :: byte) = nat ((n - 1) div 2)"
    by (simp add: unat_eq_nat_uint uint_word_of_int take_bit_int_eq_self del: unsigned_of_int)
  from assms(1) show "1 + 2 * nat ((n - 1) div 2) \<le> nat n"
    by linarith
qed

lemma string_length_zero:
  "(word_of_int ((0 - 1) sdiv 2) :: byte) = 0"
  by (simp add: signed_divide_int_def)


lemma ensures_notBuffer:
  "ensures r (\<lambda>e. False) Q \<Longrightarrow> ensures r notBuffer Q"
  by (rule ensures_weaken [where E = "\<lambda>e. False" and P = Q]) simp_all

lemma processSysexMessage_in_bounds:
  assumes "parser_inv large_mem s"
  shows "ensures (processSysexMessage s) notBuffer (\<lambda>s'. control s' = control s)"
proof -
  let ?L = "length (storedInputData s)" and ?n = "sysexBytesRead s"
  let ?bl = "word_of_int ((?n - 1) sdiv 2) :: byte"
  from assms MAX_DATA_BYTES_pos [of large_mem]
  have L: "0 < ?L" "?L \<le> 252" and n: "0 \<le> ?n" "?n < int ?L"
    by (simp_all add: parser_inv_def)
  have len: "length (storedInputData s') = ?L" if "control s' = control s" for s'
    using that by (rule control_length)
  have string: "ensures
     (andThen (decodeString ?bl 1 0 s) (\<lambda>(j, s).
        andThen (loadAt (uint (j - 1)) s) (\<lambda>ch.
        andThen (if ch \<noteq> 0 then storeAt (uint j) 0 s else Inr s) (\<lambda>s.
        Inr (s\<lparr>calls := calls s @
              [StringCallback (takeWhile (\<lambda>c. c \<noteq> 0) (storedInputData s))]\<rparr>)))))
     notBuffer (\<lambda>s'. control s' = control s)" if some: "\<not> ?bl \<le> 0"
  proof -
    have "?n \<noteq> 0"
      using some by (auto simp add: signed_divide_int_def)
    with n L have n1: "1 \<le> ?n" "?n < 256"
      by simp_all
    note k = string_length_bound [OF n1]
    from k n L have kL: "unat ?bl < ?L"
      and fit: "unat (1 :: byte) + 2 * (unat ?bl - unat (0 :: byte)) \<le> ?L"
      by simp_all
    have dec: "ensures (decodeString ?bl 1 0 s) notBuffer
           (\<lambda>r. fst r = ?bl \<and> control (snd r) = control s)"
      using kL fit L by (intro decodeString_in_bounds) simp_all
    from some have pos: "0 < ?bl"
      by (simp add: word_greater_zero_iff)
    then have "0 < unat ?bl"
      by (simp add: word_greater_zero_iff unat_gt_0)
    then have "unat (?bl - 1) = unat ?bl - 1"
      by (simp add: unat_minus_one word_greater_zero_iff unat_gt_0)
    with kL have prev: "unat (?bl - 1) < ?L"
      by simp
    have after: "ensures
        (andThen (loadAt (uint (?bl - 1)) s2) (\<lambda>ch.
        andThen (if ch \<noteq> 0 then storeAt (uint ?bl) 0 s2 else Inr s2) (\<lambda>s.
        Inr (s\<lparr>calls := calls s @
              [StringCallback (takeWhile (\<lambda>c. c \<noteq> 0) (storedInputData s))]\<rparr>))))
        notBuffer (\<lambda>s'. control s' = control s)" if c: "control s2 = control s" for s2
    proof -
      have r1: "0 \<le> uint (?bl - 1)" "uint (?bl - 1) < int (length (storedInputData s2))"
        and r2: "0 \<le> uint ?bl" "uint ?bl < int (length (storedInputData s2))"
        using len [OF c] uint_less_length [OF prev] uint_less_length [OF kL] by simp_all
      have st: "ensures (if ch \<noteq> 0 then storeAt (uint ?bl) 0 s2 else Inr s2) notBuffer
          (\<lambda>s'. control s' = control s)" for ch :: byte
        using storeAt_ok [OF r2 c, where E = notBuffer and v = 0] c by simp
      show ?thesis
        apply (rule ensures_andThen [OF loadAt_ok [OF r1]])
        apply (rule ensures_andThen [OF st])
        apply (simp add: control_def)
        done
    qed
    show ?thesis
    proof (rule ensures_andThen [OF dec])
      fix x :: "byte \<times> FirmataClass"
      assume "fst x = ?bl \<and> control (snd x) = control s"
      then obtain s2 where x: "x = (?bl, s2)" and c: "control s2 = control s"
        by (cases x) auto
      show "ensures
        ((\<lambda>(j, s).
        andThen (loadAt (uint (j - 1)) s) (\<lambda>ch.
        andThen (if ch \<noteq> 0 then storeAt (uint j) 0 s else Inr s) (\<lambda>s.
        Inr (s\<lparr>calls := calls s @
              [StringCallback (takeWhile (\<lambda>c. c \<noteq> 0) (storedInputData s))]\<rparr>)))) x)
        notBuffer (\<lambda>s'. control s' = control s)"
        unfolding x prod.case by (rule after [OF c])
    qed
  qed
  have first: "ensures (loadAt 0 s) notBuffer (\<lambda>v. True)"
    using L by (intro loadAt_ok) simp_all
  show ?thesis
    unfolding processSysexMessage_def Let_def
    apply (rule ensures_andThen [OF first])
    apply (intro ensures_if)
         apply (rule printFirmwareVersion_control [OF refl])
        apply simp
       apply (erule string)
      apply simp
     apply (simp add: control_def)
    apply simp
    done
qed


lemma load_small:
  assumes "parser_inv large_mem s" and "control s' = control s" and "0 \<le> k" and "k < 5"
  shows "ensures (loadAt k s') notBuffer (\<lambda>v. True)"
proof -
  from assms(1,2) MAX_DATA_BYTES_pos(2) [of large_mem] control_length [OF assms(2)]
  have "5 \<le> length (storedInputData s')"
    by (simp add: parser_inv_def)
  with assms(3,4) show ?thesis
    by (intro loadAt_ok) simp_all
qed

lemma store_small:
  assumes "parser_inv large_mem s" and "control s' = control s" and "0 \<le> k" and "k < 5"
  shows "ensures (storeAt k v s') notBuffer (\<lambda>s''. control s'' = control s)"
proof -
  from assms(1,2) MAX_DATA_BYTES_pos(2) [of large_mem] control_length [OF assms(2)]
  have "5 \<le> length (storedInputData s')"
    by (simp add: parser_inv_def)
  with assms(2,3,4) show ?thesis
    by (intro storeAt_ok) simp_all
qed

lemma setPinMode_parser_inv:
  assumes "parser_inv large_mem s"
  shows "ensures (setPinMode pin config s) notBuffer (parser_inv large_mem)"
  using assms by (simp add: setPinMode_def parser_inv_def notBuffer_def Let_def)

lemma executeCommand_parser_inv:
  assumes inv: "parser_inv large_mem s"
  shows "ensures (executeCommand s) notBuffer (parser_inv large_mem)"
proof -
  note ld = load_small [OF inv refl]
  have call: "parser_inv large_mem (s\<lparr>calls := cs\<rparr>)" for cs
    using inv by (simp add: parser_inv_def)
  have four: "parser_inv large_mem (s'\<lparr>sysexBytesRead := 4\<rparr>)" if "control s' = control s" for s'
    using control_parser_inv [OF that inv] MAX_DATA_BYTES_pos(2) [of large_mem]
    by (simp add: parser_inv_def)
  have dispatch: "ensures (processSysexMessage (s'\<lparr>sysexBytesRead := 4\<rparr>)) notBuffer
      (parser_inv large_mem)" if "control s' = control s" for s'
    using processSysexMessage_in_bounds [OF four [OF that]]
    by (rule ensures_weaken) (simp_all add: control_parser_inv [OF _ four [OF that]])
  have analog: "ensures
        (andThen (storeAt 0 EXTENDED_ANALOG s) (\<lambda>s.
        andThen (storeAt 1 (multiByteChannel s) s) (\<lambda>s.
        andThen (storeAt 2 b1 s) (\<lambda>s.
        andThen (storeAt 3 b0 s) (\<lambda>s.
        andThen (storeAt 4 END_SYSEX s) (\<lambda>s.
        processSysexMessage (s\<lparr>sysexBytesRead := 4\<rparr>)))))))
        notBuffer (parser_inv large_mem)" for b0 b1
    apply (rule ensures_andThen [OF store_small [OF inv refl]], simp, simp)
    apply (rule ensures_andThen [OF store_small [OF inv]], assumption, simp, simp)
    apply (rule ensures_andThen [OF store_small [OF inv]], assumption, simp, simp)
    apply (rule ensures_andThen [OF store_small [OF inv]], assumption, simp, simp)
    apply (rule ensures_andThen [OF store_small [OF inv]], assumption, simp, simp)
    apply (erule dispatch)
    done
  show ?thesis
    unfolding executeCommand_def
    apply (intro ensures_if)
               apply (rule ensures_andThen [OF ld], simp, simp)
               apply (rule ensures_andThen [OF ld], simp, simp)
               apply (rule analog)
              apply (rule ensures_andThen [OF ld], simp, simp)
              apply (rule ensures_andThen [OF ld], simp, simp)
              apply (simp add: call)
             apply (simp add: inv)
            apply (rule ensures_andThen [OF ld], simp, simp)
            apply (rule ensures_andThen [OF ld], simp, simp)
            apply (rule setPinMode_parser_inv [OF inv])
           apply (rule ensures_andThen [OF ld], simp, simp)
           apply (rule ensures_andThen [OF ld], simp, simp)
           apply (simp add: call)
          apply (simp add: inv)
         apply (rule ensures_andThen [OF ld], simp, simp)
         apply (simp add: call)
        apply (simp add: inv)
       apply (rule ensures_andThen [OF ld], simp, simp)
       apply (simp add: call)
      apply (simp add: inv)
     apply (simp add: inv)
    done
qed


lemma systemReset_parser_inv:
  assumes "length (storedInputData s) = MAX_DATA_BYTES large_mem"
  shows "ensures (systemReset large_mem s) notBuffer (parser_inv large_mem)"
  using MAX_DATA_BYTES_pos(1) [of large_mem]
  by (simp add: systemReset_eq [OF assms] parser_inv_def)

lemma startCommand_parser_inv:
  assumes inv: "parser_inv large_mem s"
  shows "ensures (startCommand large_mem command s) notBuffer (parser_inv large_mem)"
proof -
  from inv have len: "length (storedInputData s) = MAX_DATA_BYTES large_mem"
    by (simp add: parser_inv_def)
  have "parser_inv large_mem (s\<lparr>waitForData := 2, executeMultiByteCommand := c\<rparr>)"
    "parser_inv large_mem (s\<lparr>waitForData := 1, executeMultiByteCommand := c\<rparr>)"
    "parser_inv large_mem (s\<lparr>parsingSysex := True, sysexBytesRead := 0\<rparr>)" for c
    using inv MAX_DATA_BYTES_pos(1) [of large_mem] by (simp_all add: parser_inv_def)
  moreover have "ensures (printVersion s) notBuffer (parser_inv large_mem)"
    by (rule ensures_weaken [OF printVersion_control [OF refl]])
       (simp_all add: control_parser_inv [OF _ inv])
  ultimately show ?thesis
    unfolding startCommand_def
    by (intro ensures_if) (simp_all add: inv systemReset_parser_inv [OF len])
qed

lemma parse_parser_inv:
  assumes inv: "parser_inv large_mem s"
  shows "ensures (parse large_mem inputData s) notBuffer (parser_inv large_mem)"
proof -
  let ?m = "MAX_DATA_BYTES large_mem"
  from inv have len: "length (storedInputData s) = ?m" and n: "0 \<le> sysexBytesRead s"
    "sysexBytesRead s < int ?m" and w: "waitForData s \<le> 2"
    by (simp_all add: parser_inv_def)
  have reset: "ensures (systemReset large_mem
      (s\<lparr>parsingSysex := False, sysexBytesRead := 0, waitForData := 0\<rparr>)) notBuffer
      (parser_inv large_mem)"
    by (rule systemReset_parser_inv) (simp add: len)
  have ending: "ensures (processSysexMessage (s\<lparr>parsingSysex := False\<rparr>)) notBuffer
      (parser_inv large_mem)"
  proof -
    have i: "parser_inv large_mem (s\<lparr>parsingSysex := False\<rparr>)"
      using inv by (simp add: parser_inv_def)
    show ?thesis
      by (rule ensures_weaken [OF processSysexMessage_in_bounds [OF i]])
         (simp_all add: control_parser_inv [OF _ i])
  qed
  have sysex: "ensures
     (andThen (storeAt (sysexBytesRead s) inputData s) (\<lambda>s.
             let s = s\<lparr>sysexBytesRead := sysexBytesRead s + 1\<rparr>
             in if sysexBytesRead s = int (MAX_DATA_BYTES large_mem) then
                  andThen (sendString discardingMessage s) (\<lambda>s.
                  Inr (s\<lparr>parsingSysex := False, sysexBytesRead := 0, waitForData := 0\<rparr>))
                else Inr s)) notBuffer (parser_inv large_mem)"
  proof (rule ensures_andThen [where P = "\<lambda>s'. control s' = control s"])
    show "ensures (storeAt (sysexBytesRead s) inputData s) notBuffer (\<lambda>s'. control s' = control s)"
      using n len by (intro storeAt_ok) simp_all
  next
    fix s1
    assume c: "control s1 = control s"
    let ?s2 = "s1\<lparr>sysexBytesRead := sysexBytesRead s1 + 1\<rparr>"
    from control_parser_inv [OF c inv] have i1: "parser_inv large_mem s1" .
    have discard: "ensures (andThen (sendString discardingMessage ?s2) (\<lambda>s.
                  Inr (s\<lparr>parsingSysex := False, sysexBytesRead := 0, waitForData := 0\<rparr>)))
          notBuffer (parser_inv large_mem)"
      apply (rule ensures_andThen [OF sendString_control [OF refl]])
      using i1 MAX_DATA_BYTES_pos(1) [of large_mem]
      apply (simp add: parser_inv_def control_def)
      done
    have more: "parser_inv large_mem ?s2" if "sysexBytesRead ?s2 \<noteq> int ?m"
      using that i1 by (simp add: parser_inv_def)
    show "ensures
          (let s = s1\<lparr>sysexBytesRead := sysexBytesRead s1 + 1\<rparr>
           in if sysexBytesRead s = int (MAX_DATA_BYTES large_mem) then
                andThen (sendString discardingMessage s) (\<lambda>s.
                Inr (s\<lparr>parsingSysex := False, sysexBytesRead := 0, waitForData := 0\<rparr>))
              else Inr s) notBuffer (parser_inv large_mem)"
      unfolding Let_def
    proof (rule ensures_if)
      show "ensures (andThen (sendString discardingMessage ?s2) (\<lambda>s.
                  Inr (s\<lparr>parsingSysex := False, sysexBytesRead := 0, waitForData := 0\<rparr>)))
          notBuffer (parser_inv large_mem)"
        by (rule discard)
    next
      assume "sysexBytesRead ?s2 \<noteq> int ?m"
      then have "parser_inv large_mem ?s2"
        by (rule more)
      then show "ensures (Inr ?s2) notBuffer (parser_inv large_mem)"
        by simp
    qed
  qed
  have fixed: "ensures
     (let s = s\<lparr>waitForData := waitForData s - 1\<rparr>
         in andThen (storeAt (uint (waitForData s)) inputData s) (\<lambda>s.
              if waitForData s = 0 \<and> executeMultiByteCommand s \<noteq> 0 then
                andThen (executeCommand s) (\<lambda>s.
                Inr (s\<lparr>executeMultiByteCommand := 0\<rparr>))
              else Inr s)) notBuffer (parser_inv large_mem)" if pos: "0 < waitForData s"
  proof -
    let ?s1 = "s\<lparr>waitForData := waitForData s - 1\<rparr>"
    from pos have "0 < unat (waitForData s)"
      by (simp add: word_greater_zero_iff unat_gt_0)
    then have dec: "unat (waitForData s - 1) = unat (waitForData s) - 1"
      by (simp add: unat_minus_one word_greater_zero_iff unat_gt_0)
    from w have "unat (waitForData s) \<le> 2"
      by (simp add: word_le_nat_alt)
    with dec have small: "unat (waitForData s - 1) \<le> 1"
      by simp
    then have "waitForData s - 1 \<le> 2"
      by (simp add: word_le_nat_alt)
    with inv have i1: "parser_inv large_mem ?s1"
      by (simp add: parser_inv_def)
    from small MAX_DATA_BYTES_pos(2) [of large_mem] len
    have "unat (waitForData s - 1) < length (storedInputData ?s1)"
      by simp
    then have rng: "0 \<le> uint (waitForData ?s1)"
      "uint (waitForData ?s1) < int (length (storedInputData ?s1))"
      using uint_less_length [of "waitForData s - 1" "length (storedInputData ?s1)"] by simp_all
    have exec: "ensures (if waitForData s2 = 0 \<and> executeMultiByteCommand s2 \<noteq> 0 then
                andThen (executeCommand s2) (\<lambda>s.
                Inr (s\<lparr>executeMultiByteCommand := 0\<rparr>))
              else Inr s2) notBuffer (parser_inv large_mem)" if c: "control s2 = control ?s1" for s2
    proof -
      from control_parser_inv [OF c i1] have i2: "parser_inv large_mem s2" .
      have "ensures (andThen (executeCommand s2) (\<lambda>s.
                Inr (s\<lparr>executeMultiByteCommand := 0\<rparr>))) notBuffer (parser_inv large_mem)"
        by (rule ensures_andThen [OF executeCommand_parser_inv [OF i2]])
           (simp add: parser_inv_def)
      with i2 show ?thesis
        by simp
    qed
    show ?thesis
      unfolding Let_def
      by (rule ensures_andThen [OF storeAt_ok [OF rng refl]]) (erule exec)
  qed
  have chan: "parser_inv large_mem (s\<lparr>multiByteChannel := c\<rparr>)" for c
    using inv by (simp add: parser_inv_def)
  show ?thesis
    unfolding parse_def
    apply (intro ensures_if)
         apply (rule reset)
        apply (rule ending)
       apply (rule sysex)
      apply (rule fixed)
      apply simp
     apply (rule startCommand_parser_inv [OF chan])
    apply (rule startCommand_parser_inv [OF inv])
    done
qed

lemma parse_all_parser_inv:
  "parser_inv large_mem s \<Longrightarrow>
     ensures (forEach bytes (parse large_mem) s) notBuffer (parser_inv large_mem)"
  by (rule ensures_forEach [where I = "parser_inv large_mem"]) (simp_all add: parse_parser_inv)


lemma ensures_notBuffer_result:
  assumes "ensures r notBuffer Q"
  shows "r \<noteq> Inl BufferOutOfBounds \<and> (\<forall>x. r = Inr x \<longrightarrow> Q x)"
  using assms by (cases r) (simp_all add: notBuffer_def)

lemma FirmataClass_new_parser_inv:
  "parser_inv large_mem (zeroInitialized large_mem total_pins)"
  using MAX_DATA_BYTES_pos(1) [of large_mem] by (simp add: parser_inv_def zeroInitialized_def)

lemma resetParser_parser_inv:
  "length (storedInputData s) = MAX_DATA_BYTES large_mem \<Longrightarrow>
     parser_inv large_mem (resetParser s)"
  using MAX_DATA_BYTES_pos(1) [of large_mem] by (simp add: parser_inv_def resetParser_def)

lemma processInput_small_parser_inv:
  assumes "parser_inv False s"
  shows "ensures (processInput False s) notBuffer (parser_inv False)"
proof (cases "streamIn s")
  case Nil
  with assms show ?thesis
    by (simp add: processInput_def notBuffer_def)
next
  case (Cons inputData rest)
  from assms have "parser_inv False (s\<lparr>streamIn := rest\<rparr>)"
    by (simp add: parser_inv_def)
  then have "ensures (parse False inputData (s\<lparr>streamIn := rest\<rparr>)) notBuffer (parser_inv False)"
    by (rule parse_parser_inv)
  with Cons show ?thesis
    by (simp add: processInput_def notBuffer_def)
qed

text \<open>
  The single-byte path keeps its own invariant. The constructor returns an engine that
  satisfies \<open>parser_inv\<close>, and so do \<open>systemReset\<close> and \<open>resetParser\<close> on a buffer of
  the declared size. From any engine that satisfies \<open>parser_inv\<close>, \<open>parse\<close> on any
  byte, and on any sequence of bytes, never reads or writes \<open>storedInputData\<close> outside
  the array (the result is never the fault \<open>BufferOutOfBounds\<close>), and the engine it
  returns satisfies \<open>parser_inv\<close> again. Without \<^verbatim>\<open>LARGE_MEM_DEVICE\<close>,
  \<open>processInput\<close> only calls \<open>parse\<close>, so there the invariant holds in every state
  the engine reaches.
\<close>

lemma parse_keeps_parser_inv:
  "(\<exists>s0. FirmataClass_new large_mem total_pins = Inr s0 \<and> parser_inv large_mem s0)
   \<and> (length (storedInputData s) = MAX_DATA_BYTES large_mem \<longrightarrow>
        (\<exists>s'. systemReset large_mem s = Inr s' \<and> parser_inv large_mem s')
        \<and> parser_inv large_mem (resetParser s))
   \<and> (parser_inv large_mem s \<longrightarrow>
        parse large_mem inputData s \<noteq> Inl BufferOutOfBounds
        \<and> (\<forall>s'. parse large_mem inputData s = Inr s' \<longrightarrow> parser_inv large_mem s'))
   \<and> (parser_inv large_mem s \<longrightarrow>
        forEach bytes (parse large_mem) s \<noteq> Inl BufferOutOfBounds
        \<and> (\<forall>s'. forEach bytes (parse large_mem) s = Inr s' \<longrightarrow> parser_inv large_mem s'))
   \<and> (parser_inv False s \<longrightarrow>
        processInput False s \<noteq> Inl BufferOutOfBounds
        \<and> (\<forall>s'. processInput False s = Inr s' \<longrightarrow> parser_inv False s'))"
proof (intro conjI impI)
  show "\<exists>s0. FirmataClass_new large_mem total_pins = Inr s0 \<and> parser_inv large_mem s0"
    by (simp add: FirmataClass_new_eq FirmataClass_new_parser_inv)
next
  assume len: "length (storedInputData s) = MAX_DATA_BYTES large_mem"
  show "\<exists>s'. systemReset large_mem s = Inr s' \<and> parser_inv large_mem s'"
    using MAX_DATA_BYTES_pos(1) [of large_mem]
    by (simp add: systemReset_eq [OF len] parser_inv_def)
next
  assume "length (storedInputData s) = MAX_DATA_BYTES large_mem"
  then show "parser_inv large_mem (resetParser s)"
    by (rule resetParser_parser_inv)
next
  assume "parser_inv large_mem s"
  then show "parse large_mem inputData s \<noteq> Inl BufferOutOfBounds"
    using ensures_notBuffer_result [OF parse_parser_inv] by blast
next
  assume "parser_inv large_mem s"
  then show "\<forall>s'. parse large_mem inputData s = Inr s' \<longrightarrow> parser_inv large_mem s'"
    using ensures_notBuffer_result [OF parse_parser_inv] by blast
next
  assume "parser_inv large_mem s"
  then show "forEach bytes (parse large_mem) s \<noteq> Inl BufferOutOfBounds"
    using ensures_notBuffer_result [OF parse_all_parser_inv] by blast
next
  assume "parser_inv large_mem s"
  then show "\<forall>s'. forEach bytes (parse large_mem) s = Inr s' \<longrightarrow> parser_inv large_mem s'"
    using ensures_notBuffer_result [OF parse_all_parser_inv] by blast
next
  assume "parser_inv False s"
  then show "processInput False s \<noteq> Inl BufferOutOfBounds"
    using ensures_notBuffer_result [OF processInput_small_parser_inv] by blast
next
  assume "parser_inv False s"
  then show "\<forall>s'. processInput False s = Inr s' \<longrightarrow> parser_inv False s'"
    using ensures_notBuffer_result [OF processInput_small_parser_inv] by blast
qed

text \<open>
  Claim C10 fails on the code with \<^verbatim>\<open>LARGE_MEM_DEVICE\<close>. One block read of
  \<^verbatim>\<open>START_SYSEX\<close> and 248 data bytes brings the engine to \<open>nearlyFull\<close>, which
  satisfies \<open>parser_inv\<close>. On the next block of five data bytes the copying loop of
  \<open>processInput\<close> stores four of them at the indices 248 to 251, inside the buffer,
  and raises the byte count to 252 without the overflow test that \<open>parse\<close> makes after
  every byte: the engine no longer satisfies \<open>parser_inv\<close>. The fifth byte goes to
  \<open>parse\<close>, which writes it at \<open>storedInputData[252]\<close>, one past the end of the
  array. The same five bytes fed to \<open>parse\<close> alone stay inside the buffer.
\<close>

theorem parse_overruns_after_bulk_copy:
  "processInput True ((exampleEngine True)\<lparr>streamIn := START_SYSEX # replicate 248 1\<rparr>)
     = Inr nearlyFull
   \<and> parser_inv True nearlyFull
   \<and> map_sum id (\<lambda>(readCachePos, s). (readCachePos, sysexBytesRead s, parser_inv True s))
       (bulkCopy [1, 1, 1, 1, 1] 0 nearlyFull) = Inr (4, 252, False)
   \<and> andThen (bulkCopy [1, 1, 1, 1, 1] 0 nearlyFull) (\<lambda>(readCachePos, s). parse True 1 s)
       = Inl BufferOutOfBounds
   \<and> processInput True (nearlyFull\<lparr>streamIn := [1, 1, 1, 1, 1]\<rparr>) = Inl BufferOutOfBounds
   \<and> map_sum id (parser_inv True) (forEach [1, 1, 1, 1, 1] (parse True) nearlyFull) = Inr True"
proof -
  have a: "parser_inv True nearlyFull"
    by code_simp
  have b: "map_sum id (\<lambda>(readCachePos, s). (readCachePos, sysexBytesRead s, parser_inv True s))
       (bulkCopy [1, 1, 1, 1, 1] 0 nearlyFull) = Inr (4, 252, False)"
    by code_simp
  have c: "andThen (bulkCopy [1, 1, 1, 1, 1] 0 nearlyFull) (\<lambda>(readCachePos, s). parse True 1 s)
       = Inl BufferOutOfBounds"
    by code_simp
  have d: "processInput True (nearlyFull\<lparr>streamIn := [1, 1, 1, 1, 1]\<rparr>) = Inl BufferOutOfBounds"
    by code_simp
  have e: "map_sum id (parser_inv True) (forEach [1, 1, 1, 1, 1] (parse True) nearlyFull) = Inr True"
    by code_simp
  from nearlyFull_reached a b c d e show ?thesis
    by (intro conjI)
qed

end
